theory Spec2Isabelle
  imports Main "HOL-Library.Multiset"
begin

section \<open>Camera manager: data model\<close>

text \<open>
  The camera manager (class \<open>CameraManager\<close>) federates queries over camera engines.
  Conventions of the embedding:
  \<^item> a JavaScript object whose identity can be observed (a query used as a \<open>Map\<close> key, a
    \<open>ViewMedia\<close> used as a \<open>uniqBy\<close> key) is a record with a field holding its reference;
    an object literal \<open>{ ...query, f: v }\<close> is a record update that also stores a fresh
    reference, taken from a counter that is passed along;
  \<^item> a \<open>Date\<close> is its epoch time in milliseconds (\<open>int\<close>); \<open>null\<close> is \<open>None\<close>;
  \<^item> a \<open>Map\<close> is an association list in insertion order; \<open>Map.set\<close> on a key that is
    present replaces the value in place, on a new key it appends; object keys are
    compared by reference;
  \<^item> a \<open>Set<string>\<close> is a list in insertion order;
  \<^item> a thrown error is the \<open>Inl\<close> of a sum; the Store is passed
    in and returned, so what a failed call leaves behind is visible;
  \<^item> the engines are external: an engine is a record of functions (its contract), and
    \<open>impl\<close> gives the engine instance of each engine type. The \<open>hass\<close> handle is left
    out. Asynchronous calls are taken in the order they are dispatched.

  The types below are declared outside the sources (\<open>./types.js\<close>, \<open>../types.js\<close>,
  \<open>../view/media.js\<close>, \<open>./engine.js\<close>, \<open>./error.js\<close>). Modelled from the spec: each has
  the fields the spec's data model names and the manager reads.
\<close>

type_synonym time = int

type_synonym EngineT = string

datatype QueryType = Event | Recording | RecordingSegments

datatype QueryResultsType = EventResults | RecordingResults | RecordingSegmentsResults

record CameraConfig =
  identity :: "string option"
  triggers_motion :: bool
  triggers_occupancy :: bool
  backend :: string

record DataQuery =
  qref :: nat
  qtype :: QueryType
  cameraIDs :: "string list"
  qstart :: "time option"
  qend :: "time option"
  qlimit :: "int option"

record 'p QueryResults =
  rtype :: QueryResultsType
  engine :: EngineT
  cached :: bool
  payload :: 'p

record ViewMedia =
  mref :: nat
  mediaID :: "string option"
  mediaCameraID :: string
  startTime :: "time option"
  endTime :: "time option"

record CameraManagerCameraCapabilities =
  canFavoriteEvents :: bool
  canFavoriteRecordings :: bool
  supportsClips :: bool
  supportsRecordings :: bool
  supportsSnapshots :: bool
  supportsTimeline :: bool

text \<open>
  The four messages of \<open>CameraInitializationError\<close> raised by the manager, and what
  else can be thrown during initialization: an engine's own failure, and a failure to
  fetch the entity list.
\<close>

datatype ErrorKind = NoCameraEngine | NoCameraID | DuplicateCameraID | NoCameras

datatype Error =
  CameraInitializationError ErrorKind "CameraConfig option"
  | EngineError string
  | EntityFetchError

type_synonym Cameras = "(string \<times> CameraConfig) list"

type_synonym 'p ResultsMap = "(DataQuery \<times> 'p QueryResults) list"

text \<open>The engine contract, as the manager calls it.\<close>

record 'p Engine =
  engine_initializeCamera :: "CameraConfig \<Rightarrow> Error + CameraConfig"
  engine_getEvents :: "Cameras \<Rightarrow> DataQuery \<Rightarrow> 'p ResultsMap option"
  engine_getRecordings :: "Cameras \<Rightarrow> DataQuery \<Rightarrow> 'p ResultsMap option"
  engine_getRecordingSegments :: "Cameras \<Rightarrow> DataQuery \<Rightarrow> 'p ResultsMap option"
  engine_generateMediaFromEvents ::
    "Cameras \<Rightarrow> DataQuery \<Rightarrow> 'p QueryResults \<Rightarrow> ViewMedia list option"
  engine_generateMediaFromRecordings ::
    "Cameras \<Rightarrow> DataQuery \<Rightarrow> 'p QueryResults \<Rightarrow> ViewMedia list option"
  engine_getQueryResultMaxAge :: "DataQuery \<Rightarrow> int option"
  engine_getCameraCapabilities :: "CameraConfig \<Rightarrow> CameraManagerCameraCapabilities option"
  engine_getMediaSeekTime :: "Cameras \<Rightarrow> ViewMedia \<Rightarrow> time \<Rightarrow> int option"

section \<open>The Store\<close>

text \<open>
  Modelled from the spec: the class \<open>CameraManagerStore\<close> (\<open>./store.js\<close>) is not among
  the sources. The spec has it map a camera ID to its configuration and its engine, in
  insertion order, with one engine instance per engine type, so that an engine instance
  is known by its type.
\<close>

type_synonym Store = "(string \<times> CameraConfig \<times> EngineT) list"

text \<open>Modelled from the spec: \<open>hasCameraID(id)\<close>, whether the Store holds the ID.\<close>

definition hasCameraID :: "Store \<Rightarrow> string \<Rightarrow> bool" where
  "hasCameraID st cid = (cid \<in> set (map fst st))"

text \<open>
  Modelled from the spec: \<open>addCamera(id, config, engine)\<close> fails (duplicate-camera) if
  the ID exists, and adds the camera after the others otherwise.
\<close>

definition addCamera ::
  "Store \<Rightarrow> string \<Rightarrow> CameraConfig \<Rightarrow> EngineT \<Rightarrow> Error + Store" where
  "addCamera st cid cfg e =
     (if hasCameraID st cid then Inl (CameraInitializationError DuplicateCameraID None)
      else Inr (st @ [(cid, cfg, e)]))"

text \<open>
  Modelled from the spec: \<open>getCameraCount\<close>, \<open>getCameras\<close> (insertion-ordered),
  \<open>getCameraIDs\<close>, \<open>getCameraConfig(id)\<close> and \<open>getEngineForCameraID(id)\<close>, lookups by
  camera ID with \<open>null\<close> for an ID the Store does not hold.
\<close>

definition getCameraCount :: "Store \<Rightarrow> nat" where
  "getCameraCount st = length st"

definition getCameras :: "Store \<Rightarrow> Cameras" where
  "getCameras st = map (\<lambda>(cid, cfg, e). (cid, cfg)) st"

definition getCameraIDs :: "Store \<Rightarrow> string list" where
  "getCameraIDs st = map fst st"

definition getCameraConfig :: "Store \<Rightarrow> string \<Rightarrow> CameraConfig option" where
  "getCameraConfig st cid = map_option fst (map_of st cid)"

definition getEngineForCameraID :: "Store \<Rightarrow> string \<Rightarrow> EngineT option" where
  "getEngineForCameraID st cid = map_option snd (map_of st cid)"

text \<open>
  Modelled from the spec: \<open>getEngineOfType(type)\<close>, the engine instance of the type
  that the Store holds (one instance per type), or \<open>null\<close>.
\<close>

definition getEngineOfType :: "Store \<Rightarrow> EngineT \<Rightarrow> EngineT option" where
  "getEngineOfType st t = (if t \<in> set (map (\<lambda>(cid, cfg, e). e) st) then Some t else None)"

text \<open>
  Modelled from the spec: \<open>getCameraConfigForMedia\<close> and \<open>getEngineForMedia\<close> resolve
  through the media's camera reference.
\<close>

definition getCameraConfigForMedia :: "Store \<Rightarrow> ViewMedia \<Rightarrow> CameraConfig option" where
  "getCameraConfigForMedia st media = getCameraConfig st (mediaCameraID media)"

definition getEngineForMedia :: "Store \<Rightarrow> ViewMedia \<Rightarrow> EngineT option" where
  "getEngineForMedia st media = getEngineForCameraID st (mediaCameraID media)"

text \<open>
  Modelled from the spec: \<open>getEnginesForCameraIDs(ids)\<close> groups the requested IDs by
  owning engine and drops the IDs no engine owns; it is \<open>null\<close> when no engine owns any.
  \<open>addToEngine\<close> adds a camera ID to the set kept for its engine, the engines in
  first-seen order.
\<close>

fun addToEngine ::
  "EngineT \<Rightarrow> string \<Rightarrow> (EngineT \<times> string list) list \<Rightarrow> (EngineT \<times> string list) list" where
  "addToEngine e cid [] = [(e, [cid])]"
| "addToEngine e cid ((e', ids) # rest) =
     (if e' = e then (e', if cid \<in> set ids then ids else ids @ [cid]) # rest
      else (e', ids) # addToEngine e cid rest)"

fun groupByEngine ::
  "Store \<Rightarrow> string list \<Rightarrow> (EngineT \<times> string list) list \<Rightarrow> (EngineT \<times> string list) list" where
  "groupByEngine st [] acc = acc"
| "groupByEngine st (cid # cids) acc =
     (case getEngineForCameraID st cid of
        None \<Rightarrow> groupByEngine st cids acc
      | Some e \<Rightarrow> groupByEngine st cids (addToEngine e cid acc))"

definition getEnginesForCameraIDs ::
  "Store \<Rightarrow> string list \<Rightarrow> (EngineT \<times> string list) list option" where
  "getEnginesForCameraIDs st cids =
     (let output = groupByEngine st cids [] in if output = [] then None else Some output)"

section \<open>Initialization\<close>

record InitializedCamera =
  inputConfig :: CameraConfig
  initializedConfig :: CameraConfig
  initializedEngine :: EngineT

text \<open>
  \<open>_initializeCamera\<close>: the factory names the engine type of the camera (\<open>None\<close>: no
  engine matches); the engine is the Store's instance of that type or a new one, and
  both are the instance \<open>impl\<close> gives for the type. The engine initializes a copy of the
  input configuration; the input configuration is kept for error messages.
\<close>

definition manager_initializeCamera ::
  "(CameraConfig \<Rightarrow> EngineT option) \<Rightarrow> (EngineT \<Rightarrow> 'p Engine) \<Rightarrow> CameraConfig
     \<Rightarrow> Error + InitializedCamera" where
  "manager_initializeCamera factory impl inputCameraConfig =
     (case factory inputCameraConfig of
        None \<Rightarrow> Inl (CameraInitializationError NoCameraEngine (Some inputCameraConfig))
      | Some engineType \<Rightarrow>
          (case engine_initializeCamera (impl engineType) inputCameraConfig of
             Inl err \<Rightarrow> Inl err
           | Inr initialized \<Rightarrow>
               Inr \<lparr>inputConfig = inputCameraConfig, initializedConfig = initialized,
                    initializedEngine = engineType\<rparr>))"

text \<open>\<open>allPromises\<close> over the configurations: the results in input order, or the first failure.\<close>

fun initializeAll ::
  "(CameraConfig \<Rightarrow> EngineT option) \<Rightarrow> (EngineT \<Rightarrow> 'p Engine) \<Rightarrow> CameraConfig list
     \<Rightarrow> Error + InitializedCamera list" where
  "initializeAll factory impl [] = Inr []"
| "initializeAll factory impl (c # cs) =
     (case manager_initializeCamera factory impl c of
        Inl err \<Rightarrow> Inl err
      | Inr r \<Rightarrow>
          (case initializeAll factory impl cs of
             Inl err \<Rightarrow> Inl err
           | Inr rs \<Rightarrow> Inr (r # rs)))"

text \<open>
  The \<open>results.forEach\<close> of \<open>initializeCameras\<close>. \<open>getCameraID\<close> (\<open>../utils/camera.js\<close>)
  is not among the sources and is a parameter; \<open>!id\<close> holds of \<open>null\<close> and of the empty
  string. A throw ends the loop and leaves the Store as it is at that point.
\<close>

fun applyResults ::
  "(CameraConfig \<Rightarrow> string option) \<Rightarrow> Store \<Rightarrow> InitializedCamera list
     \<Rightarrow> (Error + unit) \<times> Store" where
  "applyResults getCameraID st [] = (Inr (), st)"
| "applyResults getCameraID st (r # rs) =
     (case getCameraID (initializedConfig r) of
        None \<Rightarrow> (Inl (CameraInitializationError NoCameraID (Some (inputConfig r))), st)
      | Some cid \<Rightarrow>
          if cid = [] then
            (Inl (CameraInitializationError NoCameraID (Some (inputConfig r))), st)
          else if hasCameraID st cid then
            (Inl (CameraInitializationError DuplicateCameraID (Some (inputConfig r))), st)
          else
            (case addCamera st cid (initializedConfig r) (initializedEngine r) of
               Inl err \<Rightarrow> (Inl err, st)
             | Inr st' \<Rightarrow> applyResults getCameraID st' rs))"

definition hasAutoTriggers :: "CameraConfig \<Rightarrow> bool" where
  "hasAutoTriggers config = (triggers_motion config \<or> triggers_occupancy config)"

text \<open>
  \<open>initializeCameras\<close>; \<open>fetchOk\<close> tells whether \<open>fetchEntityList\<close> succeeds when it is
  called.
\<close>

definition initializeCameras ::
  "bool \<Rightarrow> (CameraConfig \<Rightarrow> EngineT option) \<Rightarrow> (EngineT \<Rightarrow> 'p Engine)
     \<Rightarrow> (CameraConfig \<Rightarrow> string option) \<Rightarrow> Store \<Rightarrow> CameraConfig list
     \<Rightarrow> (Error + unit) \<times> Store" where
  "initializeCameras fetchOk factory impl getCameraID st camerasConfig =
     (if list_ex hasAutoTriggers camerasConfig \<and> \<not> fetchOk then
        (Inl EntityFetchError, st)
      else
        (case initializeAll factory impl camerasConfig of
           Inl err \<Rightarrow> (Inl err, st)
         | Inr results \<Rightarrow>
             (case applyResults getCameraID st results of
                (Inl err, st') \<Rightarrow> (Inl err, st')
              | (Inr u, st') \<Rightarrow>
                  if getCameraCount st' = 0 then
                    (Inl (CameraInitializationError NoCameras None), st')
                  else (Inr (), st'))))"

section \<open>Query execution\<close>

text \<open>\<open>Map.set\<close> with a query object as key: keys are compared by reference.\<close>

fun mapSet :: "DataQuery \<Rightarrow> 'v \<Rightarrow> (DataQuery \<times> 'v) list \<Rightarrow> (DataQuery \<times> 'v) list" where
  "mapSet key v [] = [(key, v)]"
| "mapSet key v ((k, w) # rest) =
     (if qref k = qref key then (k, v) # rest else (k, w) # mapSet key v rest)"

text \<open>
  \<open>processEngineQuery\<close> of \<open>_handleQuery\<close>: the engine method is chosen by the query's
  type (\<open>engineResult\<close>), and every entry of the engine's map is set in \<open>results\<close> under
  the engine's key. The query it is called with is always an object, so the early
  return on a missing query is never taken.
\<close>

definition engineResultFor ::
  "(EngineT \<Rightarrow> 'p Engine) \<Rightarrow> Store \<Rightarrow> EngineT \<Rightarrow> DataQuery \<Rightarrow> 'p ResultsMap option" where
  "engineResultFor impl st e query =
     (case qtype query of
        Event \<Rightarrow> engine_getEvents (impl e) (getCameras st) query
      | Recording \<Rightarrow> engine_getRecordings (impl e) (getCameras st) query
      | RecordingSegments \<Rightarrow> engine_getRecordingSegments (impl e) (getCameras st) query)"

definition processEngineQuery ::
  "(EngineT \<Rightarrow> 'p Engine) \<Rightarrow> Store \<Rightarrow> EngineT \<Rightarrow> DataQuery \<Rightarrow> 'p ResultsMap \<Rightarrow> 'p ResultsMap" where
  "processEngineQuery impl st e query results =
     (case engineResultFor impl st e query of
        None \<Rightarrow> results
      | Some m \<Rightarrow> fold (\<lambda>(key, v) acc. mapSet key v acc) m results)"

text \<open>
  The fan-out of \<open>processQuery\<close> over the engines of one query: each engine receives
  \<open>{ ...query, cameraIDs: engines.get(engine) }\<close>, a new object.
\<close>

fun processEngines ::
  "(EngineT \<Rightarrow> 'p Engine) \<Rightarrow> Store \<Rightarrow> DataQuery \<Rightarrow> (EngineT \<times> string list) list
     \<Rightarrow> 'p ResultsMap \<Rightarrow> nat \<Rightarrow> 'p ResultsMap \<times> nat" where
  "processEngines impl st query [] results fresh = (results, fresh)"
| "processEngines impl st query ((e, ids) # rest) results fresh =
     processEngines impl st query rest
       (processEngineQuery impl st e (query\<lparr>cameraIDs := ids, qref := fresh\<rparr>) results)
       (Suc fresh)"

definition processQuery ::
  "(EngineT \<Rightarrow> 'p Engine) \<Rightarrow> Store \<Rightarrow> DataQuery \<Rightarrow> 'p ResultsMap \<Rightarrow> nat \<Rightarrow> 'p ResultsMap \<times> nat" where
  "processQuery impl st query results fresh =
     (case getEnginesForCameraIDs st (cameraIDs query) of
        None \<Rightarrow> (results, fresh)
      | Some engines \<Rightarrow> processEngines impl st query engines results fresh)"

fun processQueries ::
  "(EngineT \<Rightarrow> 'p Engine) \<Rightarrow> Store \<Rightarrow> DataQuery list \<Rightarrow> 'p ResultsMap \<Rightarrow> nat
     \<Rightarrow> 'p ResultsMap \<times> nat" where
  "processQueries impl st [] results fresh = (results, fresh)"
| "processQueries impl st (query # queries) results fresh =
     (case processQuery impl st query results fresh of
        (results', fresh') \<Rightarrow> processQueries impl st queries results' fresh')"

text \<open>
  \<open>_handleQuery\<close>, on the list \<open>arrayify\<close> gives; \<open>fresh\<close> is the first unused object
  reference, and the counter after the call is returned with the map. The log entry is
  left out.
\<close>

definition handleQuery ::
  "(EngineT \<Rightarrow> 'p Engine) \<Rightarrow> Store \<Rightarrow> nat \<Rightarrow> DataQuery list \<Rightarrow> 'p ResultsMap \<times> nat" where
  "handleQuery impl st fresh queries = processQueries impl st queries [] fresh"

section \<open>Media conversion, deduplication and ordering\<close>

text \<open>
  \<open>uniqBy\<close> and \<open>orderBy\<close> are lodash's. \<open>uniqBy\<close> keeps, in order, each element whose
  key has not been seen before. \<open>orderBy\<close> with one iteratee and \<open>'asc'\<close> sorts by
  \<open>compareAscending\<close> on the keys and, between equal keys, by the position in the input;
  on keys that are a \<open>Date\<close> or \<open>null\<close>, \<open>compareAscending\<close> orders dates by their time
  and puts \<open>null\<close> after every date.
\<close>

fun uniqByFrom :: "('a \<Rightarrow> 'k) \<Rightarrow> 'k list \<Rightarrow> 'a list \<Rightarrow> 'a list" where
  "uniqByFrom iteratee seen [] = []"
| "uniqByFrom iteratee seen (x # xs) =
     (if iteratee x \<in> set seen then uniqByFrom iteratee seen xs
      else x # uniqByFrom iteratee (iteratee x # seen) xs)"

definition uniqBy :: "'a list \<Rightarrow> ('a \<Rightarrow> 'k) \<Rightarrow> 'a list" where
  "uniqBy array iteratee = uniqByFrom iteratee [] array"

fun compareAscending :: "time option \<Rightarrow> time option \<Rightarrow> int" where
  "compareAscending (Some a) (Some b) = (if a > b then 1 else if a < b then - 1 else 0)"
| "compareAscending None (Some b) = 1"
| "compareAscending (Some a) None = - 1"
| "compareAscending None None = 0"

fun insertAscending :: "('a \<Rightarrow> time option) \<Rightarrow> 'a \<Rightarrow> 'a list \<Rightarrow> 'a list" where
  "insertAscending iteratee x [] = [x]"
| "insertAscending iteratee x (y # ys) =
     (if compareAscending (iteratee x) (iteratee y) \<le> 0 then x # y # ys
      else y # insertAscending iteratee x ys)"

definition orderByAsc :: "'a list \<Rightarrow> ('a \<Rightarrow> time option) \<Rightarrow> 'a list" where
  "orderByAsc collection iteratee = foldr (insertAscending iteratee) collection []"

text \<open>The key of \<open>_sortMedia\<close>: \<open>media.getID() ?? media\<close>, the ID or else the object itself.\<close>

definition mediaKey :: "ViewMedia \<Rightarrow> string + nat" where
  "mediaKey media = (case mediaID media of Some i \<Rightarrow> Inl i | None \<Rightarrow> Inr (mref media))"

definition sortMedia :: "ViewMedia list \<Rightarrow> ViewMedia list" where
  "sortMedia mediaArray = orderByAsc (uniqBy mediaArray mediaKey) startTime"

text \<open>The media of one entry of the results map, in \<open>_convertQueryResultsToMedia\<close>.\<close>

definition mediaOfResult ::
  "(EngineT \<Rightarrow> 'p Engine) \<Rightarrow> Store \<Rightarrow> DataQuery \<times> 'p QueryResults \<Rightarrow> ViewMedia list" where
  "mediaOfResult impl st entry =
     (case entry of (query, result) \<Rightarrow>
        (case getEngineOfType st (engine result) of
           None \<Rightarrow> []
         | Some e \<Rightarrow>
             (let media =
                (if qtype query = Event \<and> rtype result = EventResults then
                   engine_generateMediaFromEvents (impl e) (getCameras st) query result
                 else if qtype query = Recording \<and> rtype result = RecordingResults then
                   engine_generateMediaFromRecordings (impl e) (getCameras st) query result
                 else None)
              in case media of None \<Rightarrow> [] | Some ms \<Rightarrow> ms)))"

definition convertQueryResultsToMedia ::
  "(EngineT \<Rightarrow> 'p Engine) \<Rightarrow> Store \<Rightarrow> 'p ResultsMap \<Rightarrow> ViewMedia list" where
  "convertQueryResultsToMedia impl st results =
     sortMedia (concat (map (mediaOfResult impl st) results))"

definition executeMediaQueries ::
  "(EngineT \<Rightarrow> 'p Engine) \<Rightarrow> Store \<Rightarrow> nat \<Rightarrow> DataQuery list \<Rightarrow> ViewMedia list \<times> nat" where
  "executeMediaQueries impl st fresh queries =
     (case handleQuery impl st fresh queries of
        (results, fresh') \<Rightarrow> (convertQueryResultsToMedia impl st results, fresh'))"

section \<open>Pagination\<close>

datatype Want = Earliest | Latest

datatype Direction = Earlier | Later

fun getTimeFromResultsLoop :: "Want \<Rightarrow> time option \<Rightarrow> ViewMedia list \<Rightarrow> time option" where
  "getTimeFromResultsLoop want output [] = output"
| "getTimeFromResultsLoop want output (result # results) =
     getTimeFromResultsLoop want
       (case startTime result of
          None \<Rightarrow> output
        | Some s \<Rightarrow>
            (case output of
               None \<Rightarrow> Some s
             | Some out \<Rightarrow>
                 if (want = Earliest \<and> s < out) \<or> (want = Latest \<and> s > out) then Some s
                 else output))
       results"

definition getTimeFromResults :: "ViewMedia list \<Rightarrow> Want \<Rightarrow> time option" where
  "getTimeFromResults results want = getTimeFromResultsLoop want None results"

text \<open>The chunk query of one query: a copy with the time bound and the limit rewritten.\<close>

definition newChunkQueryOf ::
  "ViewMedia list \<Rightarrow> Direction \<Rightarrow> int \<Rightarrow> nat \<Rightarrow> DataQuery \<Rightarrow> DataQuery" where
  "newChunkQueryOf results direction chunkSize fresh query =
     (let copy = query\<lparr>qref := fresh\<rparr>;
          bounded =
            (case direction of
               Later \<Rightarrow>
                 (case getTimeFromResults results Latest of
                    Some latestResult \<Rightarrow> copy\<lparr>qstart := Some latestResult\<rparr>
                  | None \<Rightarrow> copy)
             | Earlier \<Rightarrow>
                 (case getTimeFromResults results Earliest of
                    Some earliestResult \<Rightarrow> copy\<lparr>qend := Some earliestResult\<rparr>
                  | None \<Rightarrow> copy))
      in bounded\<lparr>qlimit := Some chunkSize\<rparr>)"

text \<open>The extended query of one query: a copy with the limit raised by the chunk size.\<close>

definition extendedQueryOf :: "int \<Rightarrow> nat \<Rightarrow> DataQuery \<Rightarrow> DataQuery" where
  "extendedQueryOf chunkSize fresh query =
     query\<lparr>qlimit := Some ((case qlimit query of None \<Rightarrow> 0 | Some l \<Rightarrow> l) + chunkSize),
           qref := fresh\<rparr>"

text \<open>The loop over the queries: the chunk queries, the extended queries, the counter.\<close>

fun extendLoop ::
  "ViewMedia list \<Rightarrow> Direction \<Rightarrow> int \<Rightarrow> DataQuery list \<Rightarrow> nat
     \<Rightarrow> DataQuery list \<times> DataQuery list \<times> nat" where
  "extendLoop results direction chunkSize [] fresh = ([], [], fresh)"
| "extendLoop results direction chunkSize (query # queries) fresh =
     (case extendLoop results direction chunkSize queries (Suc (Suc fresh)) of
        (newChunkQueries, extendedQueries, fresh') \<Rightarrow>
          (newChunkQueryOf results direction chunkSize fresh query # newChunkQueries,
           extendedQueryOf chunkSize (Suc fresh) query # extendedQueries,
           fresh'))"

record ExtendedMediaQueryResult =
  queries :: "DataQuery list"
  results :: "ViewMedia list"

definition extendMediaQueries ::
  "(EngineT \<Rightarrow> 'p Engine) \<Rightarrow> Store \<Rightarrow> nat \<Rightarrow> DataQuery list \<Rightarrow> ViewMedia list \<Rightarrow> Direction
     \<Rightarrow> int \<Rightarrow> ExtendedMediaQueryResult option \<times> nat" where
  "extendMediaQueries impl st fresh qs rs direction chunkSize =
     (case extendLoop rs direction chunkSize qs fresh of
        (newChunkQueries, extendedQueries, fresh1) \<Rightarrow>
          (case handleQuery impl st fresh1 newChunkQueries of
             (chunkResults, fresh2) \<Rightarrow>
               (let newChunkMedia = convertQueryResultsToMedia impl st chunkResults
                in if newChunkMedia = [] then (None, fresh2)
                   else (Some \<lparr>queries = extendedQueries,
                               results = sortMedia (rs @ newChunkMedia)\<rparr>, fresh2))))"

section \<open>Freshness, seek time, capabilities\<close>

text \<open>
  The inner loop of \<open>areMediaQueriesResultsFresh\<close>; \<open>None\<close> is the \<open>return false\<close>,
  \<open>Some\<close> carries the counter on. \<open>add(resultsTimestamp, { seconds: s })\<close> is the
  timestamp plus \<open>1000 * s\<close> milliseconds.
\<close>

fun freshForEngines ::
  "(EngineT \<Rightarrow> 'p Engine) \<Rightarrow> time \<Rightarrow> time \<Rightarrow> DataQuery \<Rightarrow> (EngineT \<times> string list) list \<Rightarrow> nat
     \<Rightarrow> nat option" where
  "freshForEngines impl now resultsTimestamp query [] fresh = Some fresh"
| "freshForEngines impl now resultsTimestamp query ((e, ids) # rest) fresh =
     (case engine_getQueryResultMaxAge (impl e) (query\<lparr>cameraIDs := ids, qref := fresh\<rparr>) of
        None \<Rightarrow> freshForEngines impl now resultsTimestamp query rest (Suc fresh)
      | Some maxAgeSeconds \<Rightarrow>
          if resultsTimestamp + 1000 * maxAgeSeconds < now then None
          else freshForEngines impl now resultsTimestamp query rest (Suc fresh))"

fun freshForQueries ::
  "(EngineT \<Rightarrow> 'p Engine) \<Rightarrow> Store \<Rightarrow> time \<Rightarrow> time \<Rightarrow> DataQuery list \<Rightarrow> nat \<Rightarrow> bool" where
  "freshForQueries impl st now resultsTimestamp [] fresh = True"
| "freshForQueries impl st now resultsTimestamp (query # rest) fresh =
     (case freshForEngines impl now resultsTimestamp query
             (case getEnginesForCameraIDs st (cameraIDs query) of
                None \<Rightarrow> []
              | Some engines \<Rightarrow> engines)
             fresh of
        None \<Rightarrow> False
      | Some fresh' \<Rightarrow> freshForQueries impl st now resultsTimestamp rest fresh')"

text \<open>\<open>areMediaQueriesResultsFresh\<close>; \<open>now\<close> is the \<open>new Date()\<close> of the call.\<close>

definition areMediaQueriesResultsFresh ::
  "(EngineT \<Rightarrow> 'p Engine) \<Rightarrow> Store \<Rightarrow> time \<Rightarrow> nat \<Rightarrow> DataQuery list \<Rightarrow> time \<Rightarrow> bool" where
  "areMediaQueriesResultsFresh impl st now fresh qs resultsTimestamp =
     freshForQueries impl st now resultsTimestamp qs fresh"

text \<open>
  \<open>getMediaSeekTime\<close> returns its value together with the calls it made of the engine's
  \<open>getMediaSeekTime\<close>.
\<close>

datatype SeekCall = SeekCall EngineT Cameras ViewMedia time

definition getMediaSeekTime ::
  "(EngineT \<Rightarrow> 'p Engine) \<Rightarrow> Store \<Rightarrow> ViewMedia \<Rightarrow> time \<Rightarrow> int option \<times> SeekCall list" where
  "getMediaSeekTime impl st media target =
     (case getCameraConfigForMedia st media of
        None \<Rightarrow> (None, [])
      | Some cameraConfig \<Rightarrow>
          (case getEngineForMedia st media of
             None \<Rightarrow> (None, [])
           | Some e \<Rightarrow>
               (case startTime media of
                  None \<Rightarrow> (None, [])
                | Some s \<Rightarrow>
                    (case endTime media of
                       None \<Rightarrow> (None, [])
                     | Some t \<Rightarrow>
                         if target < s \<or> target > t then (None, [])
                         else (engine_getMediaSeekTime (impl e) (getCameras st) media target,
                               [SeekCall e (getCameras st) media target])))))"

definition getCameraCapabilities ::
  "(EngineT \<Rightarrow> 'p Engine) \<Rightarrow> Store \<Rightarrow> string \<Rightarrow> CameraManagerCameraCapabilities option" where
  "getCameraCapabilities impl st cameraID =
     (case getCameraConfig st cameraID of
        None \<Rightarrow> None
      | Some cameraConfig \<Rightarrow>
          (case getEngineForCameraID st cameraID of
             None \<Rightarrow> None
           | Some e \<Rightarrow> engine_getCameraCapabilities (impl e) cameraConfig))"

text \<open>\<open>cap?.flag\<close> inside \<open>some\<close>: a \<open>null\<close> capability counts as false.\<close>

definition someCap ::
  "(CameraManagerCameraCapabilities \<Rightarrow> bool) \<Rightarrow> CameraManagerCameraCapabilities option list
     \<Rightarrow> bool" where
  "someCap flag perCameraCapabilities =
     list_ex (\<lambda>cap. case cap of None \<Rightarrow> False | Some c \<Rightarrow> flag c) perCameraCapabilities"

text \<open>
  \<open>getAggregateCameraCapabilities\<close>; the aggregate \<open>CameraManagerCapabilities\<close> has the
  six flags of the per-camera record, which stands for it.
\<close>

definition getAggregateCameraCapabilities ::
  "(EngineT \<Rightarrow> 'p Engine) \<Rightarrow> Store \<Rightarrow> string list option \<Rightarrow> CameraManagerCameraCapabilities" where
  "getAggregateCameraCapabilities impl st requested =
     (let perCameraCapabilities =
        map (getCameraCapabilities impl st)
          (case requested of None \<Rightarrow> getCameraIDs st | Some ids \<Rightarrow> ids)
      in \<lparr>canFavoriteEvents = someCap canFavoriteEvents perCameraCapabilities,
          canFavoriteRecordings = someCap canFavoriteRecordings perCameraCapabilities,
          supportsClips = someCap supportsClips perCameraCapabilities,
          supportsRecordings = someCap supportsRecordings perCameraCapabilities,
          supportsSnapshots = someCap supportsSnapshots perCameraCapabilities,
          supportsTimeline = someCap supportsTimeline perCameraCapabilities\<rparr>)"

section \<open>Notions used to state the properties\<close>

text \<open>
  The camera ID a resolved configuration derives, as \<open>initializeCameras\<close> reads it:
  none when \<open>getCameraID\<close> gives \<open>null\<close> or the empty string.
\<close>

definition derivedID ::
  "(CameraConfig \<Rightarrow> string option) \<Rightarrow> InitializedCamera \<Rightarrow> string option" where
  "derivedID g r =
     (case g (initializedConfig r) of
        None \<Rightarrow> None
      | Some cid \<Rightarrow> if cid = [] then None else Some cid)"

text \<open>The Store entry a resolved configuration is committed as.\<close>

definition storeEntry ::
  "(CameraConfig \<Rightarrow> string option) \<Rightarrow> InitializedCamera \<Rightarrow> string \<times> CameraConfig \<times> EngineT" where
  "storeEntry g r = (the (derivedID g r), initializedConfig r, initializedEngine r)"

text \<open>
  A run of resolved configurations none of which offends: each derives an ID, the IDs
  differ from each other and from the IDs the Store holds.
\<close>

definition accepted ::
  "(CameraConfig \<Rightarrow> string option) \<Rightarrow> Store \<Rightarrow> InitializedCamera list \<Rightarrow> bool" where
  "accepted g st pre =
     (distinct (map (derivedID g) pre) \<and>
      list_all (\<lambda>r. case derivedID g r of None \<Rightarrow> False | Some cid \<Rightarrow> \<not> hasCameraID st cid) pre)"

text \<open>The engines of a query with the cameras each owns; none when no engine owns any.\<close>

definition enginesOf :: "Store \<Rightarrow> DataQuery \<Rightarrow> (EngineT \<times> string list) list" where
  "enginesOf st query =
     (case getEnginesForCameraIDs st (cameraIDs query) of None \<Rightarrow> [] | Some es \<Rightarrow> es)"

text \<open>
  The copies of a query handed to its engines, \<open>{ ...query, cameraIDs: owned }\<close>, each
  with the engine that receives it; \<open>fresh\<close> is the reference of the first copy.
\<close>

fun copiesFor ::
  "DataQuery \<Rightarrow> (EngineT \<times> string list) list \<Rightarrow> nat \<Rightarrow> (EngineT \<times> DataQuery) list" where
  "copiesFor query [] fresh = []"
| "copiesFor query ((e, ids) # rest) fresh =
     (e, query\<lparr>cameraIDs := ids, qref := fresh\<rparr>) # copiesFor query rest (Suc fresh)"

text \<open>The (engine, owned camera subset) pairs that contribute to a batch of queries.\<close>

fun contributions :: "Store \<Rightarrow> DataQuery list \<Rightarrow> nat \<Rightarrow> (EngineT \<times> DataQuery) list" where
  "contributions st [] fresh = []"
| "contributions st (query # rest) fresh =
     copiesFor query (enginesOf st query) fresh @
     contributions st rest (fresh + length (enginesOf st query))"

text \<open>
  An engine's answer on one contribution is not stale: its maximum age is \<open>null\<close>, or
  the results' timestamp plus the age (in seconds) is not before \<open>now\<close>.
\<close>

definition withinMaxAge ::
  "(EngineT \<Rightarrow> 'p Engine) \<Rightarrow> time \<Rightarrow> time \<Rightarrow> EngineT \<times> DataQuery \<Rightarrow> bool" where
  "withinMaxAge impl now resultsTimestamp c =
     (case engine_getQueryResultMaxAge (impl (fst c)) (snd c) of
        None \<Rightarrow> True
      | Some maxAgeSeconds \<Rightarrow> now \<le> resultsTimestamp + 1000 * maxAgeSeconds)"

text \<open>The camera IDs \<open>getAggregateCameraCapabilities\<close> ranges over.\<close>

definition requestedCameras :: "Store \<Rightarrow> string list option \<Rightarrow> string list" where
  "requestedCameras st requested =
     (case requested of None \<Rightarrow> getCameraIDs st | Some ids \<Rightarrow> ids)"

text \<open>Some camera of the list has capabilities, and the flag holds of them.\<close>

definition someCameraHas ::
  "(EngineT \<Rightarrow> 'p Engine) \<Rightarrow> Store \<Rightarrow> (CameraManagerCameraCapabilities \<Rightarrow> bool) \<Rightarrow> string list
     \<Rightarrow> bool" where
  "someCameraHas impl st flag ids =
     (\<exists>cid \<in> set ids. \<exists>c. getCameraCapabilities impl st cid = Some c \<and> flag c)"

text \<open>
  The order of start times \<open>_sortMedia\<close> sorts by: a date is not after a later or equal
  date, and \<open>null\<close> comes after every date.
\<close>

fun notAfter :: "time option \<Rightarrow> time option \<Rightarrow> bool" where
  "notAfter (Some a) (Some b) = (a \<le> b)"
| "notAfter None (Some b) = False"
| "notAfter a None = True"

text \<open>A reference denotes one object: media with the same reference are the same.\<close>

definition sameObjects :: "ViewMedia list \<Rightarrow> bool" where
  "sameObjects ms = (\<forall>a \<in> set ms. \<forall>b \<in> set ms. mref a = mref b \<longrightarrow> a = b)"

text \<open>The start times present in a list of media.\<close>

definition startTimes :: "ViewMedia list \<Rightarrow> time list" where
  "startTimes ms = List.map_filter startTime ms"

text \<open>
  The chunk queries \<open>extendMediaQueries\<close> builds, and the media their execution yields
  (\<open>newChunkMedia\<close>).
\<close>

definition newChunkQueries ::
  "ViewMedia list \<Rightarrow> Direction \<Rightarrow> int \<Rightarrow> DataQuery list \<Rightarrow> nat \<Rightarrow> DataQuery list" where
  "newChunkQueries rs direction chunkSize qs fresh =
     fst (extendLoop rs direction chunkSize qs fresh)"

definition newChunkMedia ::
  "(EngineT \<Rightarrow> 'p Engine) \<Rightarrow> Store \<Rightarrow> ViewMedia list \<Rightarrow> Direction \<Rightarrow> int \<Rightarrow> DataQuery list
     \<Rightarrow> nat \<Rightarrow> ViewMedia list" where
  "newChunkMedia impl st rs direction chunkSize qs fresh =
     convertQueryResultsToMedia impl st
       (fst (handleQuery impl st (fresh + 2 * length qs)
              (newChunkQueries rs direction chunkSize qs fresh)))"

text \<open>An engine that keys every result it returns by the query object it received.\<close>

definition keysByReceivedQuery :: "'p Engine \<Rightarrow> bool" where
  "keysByReceivedQuery eng =
     (\<forall>cams query m.
        (engine_getEvents eng cams query = Some m \<longrightarrow> fst ` set m \<subseteq> {query}) \<and>
        (engine_getRecordings eng cams query = Some m \<longrightarrow> fst ` set m \<subseteq> {query}) \<and>
        (engine_getRecordingSegments eng cams query = Some m \<longrightarrow> fst ` set m \<subseteq> {query}))"

section \<open>Concrete inputs\<close>

definition frontDoor :: CameraConfig where
  "frontDoor = \<lparr>identity = Some ''front'', triggers_motion = False,
     triggers_occupancy = False, backend = ''frigate''\<rparr>"

definition backYard :: CameraConfig where
  "backYard = \<lparr>identity = Some ''back'', triggers_motion = False,
     triggers_occupancy = False, backend = ''generic''\<rparr>"

definition frontDoorAgain :: CameraConfig where
  "frontDoorAgain = \<lparr>identity = Some ''front'', triggers_motion = True,
     triggers_occupancy = False, backend = ''frigate''\<rparr>"

definition unnamedCamera :: CameraConfig where
  "unnamedCamera = \<lparr>identity = None, triggers_motion = False,
     triggers_occupancy = False, backend = ''generic''\<rparr>"

definition exampleFactory :: "CameraConfig \<Rightarrow> EngineT option" where
  "exampleFactory config = (if backend config = [] then None else Some (backend config))"

definition exampleStore :: Store where
  "exampleStore = [(''front'', frontDoor, ''frigate''), (''back'', backYard, ''generic'')]"

definition event :: "nat \<Rightarrow> string option \<Rightarrow> string \<Rightarrow> time option \<Rightarrow> ViewMedia" where
  "event r i cid s =
     \<lparr>mref = r, mediaID = i, mediaCameraID = cid, startTime = s,
      endTime = map_option (\<lambda>t. t + 500) s\<rparr>"

definition exampleEvents :: "string \<Rightarrow> ViewMedia list" where
  "exampleEvents cid =
     (if cid = ''front'' then
        [event 100 (Some ''e3'') ''front'' (Some 3000), event 101 (Some ''e1'') ''front'' (Some 1000)]
      else if cid = ''back'' then [event 102 (Some ''e2'') ''back'' (Some 2000)]
      else [])"

definition inBounds :: "DataQuery \<Rightarrow> ViewMedia \<Rightarrow> bool" where
  "inBounds query media =
     (case startTime media of
        None \<Rightarrow> True
      | Some t \<Rightarrow>
          (case qstart query of None \<Rightarrow> True | Some s \<Rightarrow> s \<le> t) \<and>
          (case qend query of None \<Rightarrow> True | Some e \<Rightarrow> t \<le> e))"

text \<open>
  An engine that keys its result by the query it receives, holds the events above, and
  bounds the age of results for the type \<open>frigate\<close> only.
\<close>

definition exampleEngine :: "EngineT \<Rightarrow> ViewMedia list Engine" where
  "exampleEngine t =
     \<lparr>engine_initializeCamera = Inr,
      engine_getEvents = (\<lambda>cams query.
        Some [(query, \<lparr>rtype = EventResults, engine = t, cached = False,
                       payload = filter (inBounds query)
                                   (concat (map exampleEvents (cameraIDs query)))\<rparr>)]),
      engine_getRecordings = (\<lambda>cams query. None),
      engine_getRecordingSegments = (\<lambda>cams query. None),
      engine_generateMediaFromEvents = (\<lambda>cams query result. Some (payload result)),
      engine_generateMediaFromRecordings = (\<lambda>cams query result. None),
      engine_getQueryResultMaxAge = (\<lambda>query. if t = ''frigate'' then Some 60 else None),
      engine_getCameraCapabilities = (\<lambda>config.
        Some \<lparr>canFavoriteEvents = (t = ''frigate''), canFavoriteRecordings = False,
              supportsClips = (t = ''frigate''), supportsRecordings = False,
              supportsSnapshots = True, supportsTimeline = False\<rparr>),
      engine_getMediaSeekTime = (\<lambda>cams media target.
        case startTime media of None \<Rightarrow> None | Some s \<Rightarrow> Some ((target - s) div 1000))\<rparr>"

definition resolved :: "CameraConfig \<Rightarrow> InitializedCamera" where
  "resolved config =
     \<lparr>inputConfig = config, initializedConfig = config, initializedEngine = backend config\<rparr>"

definition eventQuery :: "nat \<Rightarrow> string list \<Rightarrow> DataQuery" where
  "eventQuery r cids =
     \<lparr>qref = r, qtype = Event, cameraIDs = cids, qstart = None, qend = None, qlimit = None\<rparr>"

section \<open>Initialization: lemmas\<close>

lemma accepted_Nil: "accepted g st []"
  by (simp add: accepted_def)

lemma accepted_Cons:
  "accepted g st (r # rs) \<longleftrightarrow>
     (\<exists>cid. derivedID g r = Some cid \<and> \<not> hasCameraID st cid \<and>
        accepted g (st @ [storeEntry g r]) rs)"
  by (cases "derivedID g r")
    (auto simp: accepted_def hasCameraID_def storeEntry_def list_all_iff rev_image_eqI
          split: option.splits)

lemma applyResults_step:
  "derivedID g r = Some cid \<Longrightarrow> \<not> hasCameraID st cid \<Longrightarrow>
     applyResults g st (r # rs) = applyResults g (st @ [storeEntry g r]) rs"
  by (auto simp: derivedID_def storeEntry_def addCamera_def split: option.splits if_splits)

lemma applyResults_accepted:
  "accepted g st pre \<Longrightarrow>
     applyResults g st (pre @ rest) = applyResults g (st @ map (storeEntry g) pre) rest"
proof (induction pre arbitrary: st)
  case Nil
  then show ?case by simp
next
  case (Cons r pre)
  from Cons.prems obtain cid where c: "derivedID g r = Some cid" "\<not> hasCameraID st cid"
    and a: "accepted g (st @ [storeEntry g r]) pre"
    by (auto simp: accepted_Cons)
  have "applyResults g st ((r # pre) @ rest) = applyResults g (st @ [storeEntry g r]) (pre @ rest)"
    using applyResults_step [OF c] by simp
  also have "\<dots> = applyResults g ((st @ [storeEntry g r]) @ map (storeEntry g) pre) rest"
    by (rule Cons.IH [OF a])
  finally show ?case by simp
qed

lemma applyResults_missing:
  "derivedID g r = None \<Longrightarrow>
     applyResults g st (r # rs) = (Inl (CameraInitializationError NoCameraID (Some (inputConfig r))), st)"
  by (auto simp: derivedID_def split: option.splits if_splits)

lemma applyResults_duplicate:
  "derivedID g r = Some cid \<Longrightarrow> hasCameraID st cid \<Longrightarrow>
     applyResults g st (r # rs) =
       (Inl (CameraInitializationError DuplicateCameraID (Some (inputConfig r))), st)"
  by (auto simp: derivedID_def split: option.splits if_splits)

lemma hasCameraID_append:
  "hasCameraID (st @ map (storeEntry g) pre) cid \<longleftrightarrow>
     hasCameraID st cid \<or> cid \<in> set (map (\<lambda>r. the (derivedID g r)) pre)"
  by (auto simp: hasCameraID_def storeEntry_def image_iff)

lemma accepted_Some: "accepted g st pre \<Longrightarrow> r \<in> set pre \<Longrightarrow> \<exists>cid. derivedID g r = Some cid"
  by (auto simp: accepted_def list_all_iff split: option.splits)

lemma hasCameraID_accepted:
  assumes "accepted g st pre"
  shows "hasCameraID (st @ map (storeEntry g) pre) cid \<longleftrightarrow>
     hasCameraID st cid \<or> Some cid \<in> set (map (derivedID g) pre)"
proof -
  have "cid \<in> set (map (\<lambda>r. the (derivedID g r)) pre) \<longleftrightarrow> Some cid \<in> set (map (derivedID g) pre)"
    using accepted_Some [OF assms] by (force simp: image_iff)
  then show ?thesis by (simp add: hasCameraID_append)
qed

text \<open>A list that is not accepted has a first offender.\<close>

lemma first_offender:
  "\<not> accepted g st rs \<Longrightarrow>
     \<exists>pre r post. rs = pre @ r # post \<and> accepted g st pre \<and>
        (derivedID g r = None \<or>
         (\<exists>cid. derivedID g r = Some cid \<and>
            (hasCameraID st cid \<or> Some cid \<in> set (map (derivedID g) pre))))"
proof (induction rs rule: rev_induct)
  case Nil
  then show ?case by (simp add: accepted_Nil)
next
  case (snoc x xs)
  show ?case
  proof (cases "accepted g st xs")
    case True
    have "derivedID g x = None \<or>
         (\<exists>cid. derivedID g x = Some cid \<and>
            (hasCameraID st cid \<or> Some cid \<in> set (map (derivedID g) xs)))"
      using snoc.prems True by (cases "derivedID g x") (auto simp: accepted_def)
    with True show ?thesis by blast
  next
    case False
    from snoc.IH [OF False] obtain pre r post where
      "xs = pre @ r # post" "accepted g st pre"
      "derivedID g r = None \<or>
         (\<exists>cid. derivedID g r = Some cid \<and>
            (hasCameraID st cid \<or> Some cid \<in> set (map (derivedID g) pre)))"
      by blast
    then have "xs @ [x] = pre @ r # (post @ [x])" by simp
    then show ?thesis using \<open>accepted g st pre\<close> \<open>derivedID g r = None \<or> _\<close> by blast
  qed
qed

lemma initializeAll_inputs:
  "initializeAll factory impl cfgs = Inr rs \<Longrightarrow> map inputConfig rs = cfgs"
proof (induction cfgs arbitrary: rs)
  case Nil
  then show ?case by simp
next
  case (Cons c cs)
  then show ?case
    by (auto simp: manager_initializeCamera_def split: sum.splits option.splits)
qed


lemma initializeCameras_applied:
  assumes "fetchOk \<or> \<not> list_ex hasAutoTriggers cfgs"
    and "initializeAll factory impl cfgs = Inr rs"
    and "applyResults g st rs = (Inl e, st')"
  shows "initializeCameras fetchOk factory impl g st cfgs = (Inl e, st')"
  using assms by (auto simp: initializeCameras_def)

lemma initializeCameras_accepted:
  assumes "fetchOk \<or> \<not> list_ex hasAutoTriggers cfgs"
    and "initializeAll factory impl cfgs = Inr rs"
    and "accepted g st rs"
  shows "initializeCameras fetchOk factory impl g st cfgs =
     (if st = [] \<and> rs = [] then Inl (CameraInitializationError NoCameras None) else Inr (),
      st @ map (storeEntry g) rs)"
proof -
  have "applyResults g st rs = (Inr (), st @ map (storeEntry g) rs)"
    using applyResults_accepted [OF assms(3), of "[]"] by simp
  then show ?thesis
    using assms(1,2) by (auto simp: initializeCameras_def getCameraCount_def)
qed

lemma offender_fails:
  assumes "accepted g st pre"
  shows "derivedID g r = None \<Longrightarrow>
           applyResults g st (pre @ r # post) =
             (Inl (CameraInitializationError NoCameraID (Some (inputConfig r))),
              st @ map (storeEntry g) pre)"
    and "derivedID g r = Some cid \<Longrightarrow>
           hasCameraID st cid \<or> Some cid \<in> set (map (derivedID g) pre) \<Longrightarrow>
           applyResults g st (pre @ r # post) =
             (Inl (CameraInitializationError DuplicateCameraID (Some (inputConfig r))),
              st @ map (storeEntry g) pre)"
  using applyResults_accepted [OF assms, of "r # post"]
    applyResults_missing [of g r "st @ map (storeEntry g) pre" post]
    applyResults_duplicate [of g r cid "st @ map (storeEntry g) pre" post]
    hasCameraID_accepted [OF assms, of cid]
  by simp_all


section \<open>Initialization: failures\<close>

lemma example_initializeAll_mixed:
  "initializeAll exampleFactory exampleEngine [frontDoor, unnamedCamera, frontDoorAgain] =
     Inr [resolved frontDoor, resolved unnamedCamera, resolved frontDoorAgain]"
  by (simp add: manager_initializeCamera_def exampleFactory_def exampleEngine_def resolved_def
      frontDoor_def unnamedCamera_def frontDoorAgain_def)

lemma example_initializeAll_single:
  "initializeAll exampleFactory exampleEngine [unnamedCamera] = Inr [resolved unnamedCamera]"
  by (simp add: manager_initializeCamera_def exampleFactory_def exampleEngine_def resolved_def
      unnamedCamera_def)

text \<open>
  C4, as stated, fails where its conditions overlap. At three configurations that all
  resolve, the first and the third deriving the ID \<open>front\<close> and the second deriving
  none, the call fails with the missing-ID error of the second, not with the
  duplicate-camera error, and the first camera stays in the Store. At the one
  configuration that derives no ID, on an empty Store, the Store ends empty and the
  error is the missing-ID error, not the no-cameras error.
\<close>

theorem initializeCameras_failures_counterexample:
  "initializeAll exampleFactory exampleEngine [frontDoor, unnamedCamera, frontDoorAgain] =
     Inr [resolved frontDoor, resolved unnamedCamera, resolved frontDoorAgain] \<and>
   derivedID identity (resolved frontDoor) = Some ''front'' \<and>
   derivedID identity (resolved frontDoorAgain) = Some ''front'' \<and>
   resolved frontDoor \<noteq> resolved frontDoorAgain \<and>
   initializeCameras True exampleFactory exampleEngine identity []
       [frontDoor, unnamedCamera, frontDoorAgain] =
     (Inl (CameraInitializationError NoCameraID (Some unnamedCamera)),
      [(''front'', frontDoor, ''frigate'')]) \<and>
   CameraInitializationError NoCameraID (Some unnamedCamera) \<noteq>
     CameraInitializationError DuplicateCameraID (Some frontDoorAgain) \<and>
   initializeAll exampleFactory exampleEngine [unnamedCamera] = Inr [resolved unnamedCamera] \<and>
   initializeCameras True exampleFactory exampleEngine identity [] [unnamedCamera] =
     (Inl (CameraInitializationError NoCameraID (Some unnamedCamera)), []) \<and>
   CameraInitializationError NoCameraID (Some unnamedCamera) \<noteq>
     CameraInitializationError NoCameras None"
proof -
  have d: "derivedID identity (resolved frontDoor) = Some ''front''"
    "derivedID identity (resolved frontDoorAgain) = Some ''front''"
    "resolved frontDoor \<noteq> resolved frontDoorAgain"
    by (simp_all add: derivedID_def resolved_def frontDoor_def frontDoorAgain_def)
  have m: "initializeCameras True exampleFactory exampleEngine identity []
       [frontDoor, unnamedCamera, frontDoorAgain] =
     (Inl (CameraInitializationError NoCameraID (Some unnamedCamera)),
      [(''front'', frontDoor, ''frigate'')])"
    unfolding initializeCameras_def example_initializeAll_mixed
    by (simp add: resolved_def frontDoor_def unnamedCamera_def frontDoorAgain_def
        hasCameraID_def addCamera_def)
  have s: "initializeCameras True exampleFactory exampleEngine identity [] [unnamedCamera] =
     (Inl (CameraInitializationError NoCameraID (Some unnamedCamera)), [])"
    unfolding initializeCameras_def example_initializeAll_single
    by (simp add: resolved_def unnamedCamera_def)
  show ?thesis
    using example_initializeAll_mixed example_initializeAll_single d m s by simp
qed

text \<open>
  C4, amended. When every configuration resolves, \<open>initializeCameras\<close> fails with the
  duplicate-camera error if two resolved configurations derive the same camera ID (or
  one derives the ID of a camera in the Store) and each derives an ID; with the
  missing-ID error if a resolved configuration derives no ID and the IDs derived
  differ; with the no-cameras error, which carries no configuration, if none offends
  and the Store ends empty. When some derive the same ID and some none, the first
  offender in input order decides which of the two errors it is. Both errors carry the
  input configuration of the offender.
\<close>

theorem initializeCameras_failures:
  assumes fetch: "fetchOk \<or> \<not> list_ex hasAutoTriggers cfgs"
    and init: "initializeAll factory impl cfgs = Inr rs"
  shows
    "(\<forall>pre r post. rs = pre @ r # post \<and> accepted g st pre \<longrightarrow>
        inputConfig r = cfgs ! length pre \<and>
        (derivedID g r = None \<longrightarrow>
           fst (initializeCameras fetchOk factory impl g st cfgs) =
             Inl (CameraInitializationError NoCameraID (Some (cfgs ! length pre)))) \<and>
        (\<forall>cid. derivedID g r = Some cid \<and>
               (hasCameraID st cid \<or> Some cid \<in> set (map (derivedID g) pre)) \<longrightarrow>
           fst (initializeCameras fetchOk factory impl g st cfgs) =
             Inl (CameraInitializationError DuplicateCameraID (Some (cfgs ! length pre))))) \<and>
     (\<not> accepted g st rs \<longrightarrow>
        (\<exists>k cfg. fst (initializeCameras fetchOk factory impl g st cfgs) =
                   Inl (CameraInitializationError k (Some cfg)) \<and>
                 (k = NoCameraID \<or> k = DuplicateCameraID) \<and> cfg \<in> set cfgs)) \<and>
     (\<not> accepted g st rs \<and> (\<forall>r \<in> set rs. derivedID g r \<noteq> None) \<longrightarrow>
        (\<exists>cfg. fst (initializeCameras fetchOk factory impl g st cfgs) =
                   Inl (CameraInitializationError DuplicateCameraID (Some cfg)) \<and>
               cfg \<in> set cfgs)) \<and>
     ((\<exists>r \<in> set rs. derivedID g r = None) \<and>
      accepted g st (filter (\<lambda>r. derivedID g r \<noteq> None) rs) \<longrightarrow>
        (\<exists>cfg. fst (initializeCameras fetchOk factory impl g st cfgs) =
                   Inl (CameraInitializationError NoCameraID (Some cfg)) \<and>
               cfg \<in> set cfgs)) \<and>
     (accepted g st rs \<longrightarrow>
        fst (initializeCameras fetchOk factory impl g st cfgs) =
          (if snd (initializeCameras fetchOk factory impl g st cfgs) = []
           then Inl (CameraInitializationError NoCameras None) else Inr ()))"
proof (intro conjI allI impI)
  fix pre r post
  assume a: "rs = pre @ r # post \<and> accepted g st pre"
  have inp: "map inputConfig rs = cfgs" by (rule initializeAll_inputs [OF init])
  show c: "inputConfig r = cfgs ! length pre"
    using inp a by (metis length_map nth_append_length map_append list.simps(9))
  {
    assume "derivedID g r = None"
    then have "applyResults g st rs =
        (Inl (CameraInitializationError NoCameraID (Some (inputConfig r))),
         st @ map (storeEntry g) pre)"
      using offender_fails(1) a by blast
    then show "fst (initializeCameras fetchOk factory impl g st cfgs) =
        Inl (CameraInitializationError NoCameraID (Some (cfgs ! length pre)))"
      using initializeCameras_applied [OF fetch init] c by simp
  }
  {
    fix cid
    assume "derivedID g r = Some cid \<and>
       (hasCameraID st cid \<or> Some cid \<in> set (map (derivedID g) pre))"
    then have "applyResults g st rs =
        (Inl (CameraInitializationError DuplicateCameraID (Some (inputConfig r))),
         st @ map (storeEntry g) pre)"
      using offender_fails(2) a by blast
    then show "fst (initializeCameras fetchOk factory impl g st cfgs) =
        Inl (CameraInitializationError DuplicateCameraID (Some (cfgs ! length pre)))"
      using initializeCameras_applied [OF fetch init] c by simp
  }
next
  assume na: "\<not> accepted g st rs"
  have inp: "map inputConfig rs = cfgs" by (rule initializeAll_inputs [OF init])
  from first_offender [OF na] obtain pre r post where
    d: "rs = pre @ r # post" and acc: "accepted g st pre" and
    off: "derivedID g r = None \<or>
         (\<exists>cid. derivedID g r = Some cid \<and>
            (hasCameraID st cid \<or> Some cid \<in> set (map (derivedID g) pre)))"
    by blast
  have mem: "inputConfig r \<in> set cfgs" using inp d by force
  from off show "\<exists>k cfg. fst (initializeCameras fetchOk factory impl g st cfgs) =
                   Inl (CameraInitializationError k (Some cfg)) \<and>
                 (k = NoCameraID \<or> k = DuplicateCameraID) \<and> cfg \<in> set cfgs"
  proof
    assume "derivedID g r = None"
    then have "applyResults g st rs =
        (Inl (CameraInitializationError NoCameraID (Some (inputConfig r))),
         st @ map (storeEntry g) pre)"
      using offender_fails(1) [OF acc] d by blast
    then show ?thesis using initializeCameras_applied [OF fetch init] mem by fastforce
  next
    assume "\<exists>cid. derivedID g r = Some cid \<and>
            (hasCameraID st cid \<or> Some cid \<in> set (map (derivedID g) pre))"
    then have "applyResults g st rs =
        (Inl (CameraInitializationError DuplicateCameraID (Some (inputConfig r))),
         st @ map (storeEntry g) pre)"
      using offender_fails(2) [OF acc] d by blast
    then show ?thesis using initializeCameras_applied [OF fetch init] mem by fastforce
  qed
next
  assume h: "\<not> accepted g st rs \<and> (\<forall>r \<in> set rs. derivedID g r \<noteq> None)"
  have inp: "map inputConfig rs = cfgs" by (rule initializeAll_inputs [OF init])
  from h first_offender [of g st rs] obtain pre r post where
    d: "rs = pre @ r # post" and acc: "accepted g st pre" and
    off: "derivedID g r = None \<or>
         (\<exists>cid. derivedID g r = Some cid \<and>
            (hasCameraID st cid \<or> Some cid \<in> set (map (derivedID g) pre)))"
    by blast
  have mem: "inputConfig r \<in> set cfgs" using inp d by force
  have "derivedID g r \<noteq> None" using h d by simp
  with off have "\<exists>cid. derivedID g r = Some cid \<and>
            (hasCameraID st cid \<or> Some cid \<in> set (map (derivedID g) pre))" by blast
  then have "applyResults g st rs =
        (Inl (CameraInitializationError DuplicateCameraID (Some (inputConfig r))),
         st @ map (storeEntry g) pre)"
    using offender_fails(2) [OF acc] d by blast
  then show "\<exists>cfg. fst (initializeCameras fetchOk factory impl g st cfgs) =
                   Inl (CameraInitializationError DuplicateCameraID (Some cfg)) \<and>
               cfg \<in> set cfgs"
    using initializeCameras_applied [OF fetch init] mem by fastforce
next
  assume h: "(\<exists>r \<in> set rs. derivedID g r = None) \<and>
      accepted g st (filter (\<lambda>r. derivedID g r \<noteq> None) rs)"
  have inp: "map inputConfig rs = cfgs" by (rule initializeAll_inputs [OF init])
  from h obtain x where "x \<in> set rs" "derivedID g x = None" by blast
  then have "\<not> accepted g st rs"
    using accepted_Some [of g st rs x] by auto
  from first_offender [OF this] obtain pre r post where
    d: "rs = pre @ r # post" and acc: "accepted g st pre" and
    off: "derivedID g r = None \<or>
         (\<exists>cid. derivedID g r = Some cid \<and>
            (hasCameraID st cid \<or> Some cid \<in> set (map (derivedID g) pre)))"
    by blast
  have mem: "inputConfig r \<in> set cfgs" using inp d by force
  have "derivedID g r = None"
  proof (rule ccontr)
    assume "derivedID g r \<noteq> None"
    with off obtain cid where c: "derivedID g r = Some cid"
      and w: "hasCameraID st cid \<or> Some cid \<in> set (map (derivedID g) pre)"
      by blast
    have kept: "filter (\<lambda>r. derivedID g r \<noteq> None) rs =
        filter (\<lambda>r. derivedID g r \<noteq> None) pre @ r #
        filter (\<lambda>r. derivedID g r \<noteq> None) post"
      using d c by simp
    from w show False
    proof
      assume "hasCameraID st cid"
      with h c kept show False by (auto simp: accepted_def)
    next
      assume "Some cid \<in> set (map (derivedID g) pre)"
      then obtain x where x: "x \<in> set pre" "derivedID g x = Some cid" by auto
      then have "x \<in> set (filter (\<lambda>r. derivedID g r \<noteq> None) pre)" by simp
      then have "derivedID g x \<in>
          set (map (derivedID g) (filter (\<lambda>r. derivedID g r \<noteq> None) pre))"
        unfolding set_map by (rule imageI)
      then have "derivedID g r \<in>
          set (map (derivedID g) (filter (\<lambda>r. derivedID g r \<noteq> None) pre))"
        using c x(2) by simp
      with h kept show False by (auto simp: accepted_def)
    qed
  qed
  then have "applyResults g st rs =
        (Inl (CameraInitializationError NoCameraID (Some (inputConfig r))),
         st @ map (storeEntry g) pre)"
    using offender_fails(1) [OF acc] d by blast
  then show "\<exists>cfg. fst (initializeCameras fetchOk factory impl g st cfgs) =
                   Inl (CameraInitializationError NoCameraID (Some cfg)) \<and>
               cfg \<in> set cfgs"
    using initializeCameras_applied [OF fetch init] mem by fastforce
next
  assume "accepted g st rs"
  then show "fst (initializeCameras fetchOk factory impl g st cfgs) =
          (if snd (initializeCameras fetchOk factory impl g st cfgs) = []
           then Inl (CameraInitializationError NoCameras None) else Inr ())"
    using initializeCameras_accepted [OF fetch init] by simp
qed

text \<open>
  The theorem at three configurations, the third deriving the ID of the first; at two,
  the second deriving no ID; and at none.
\<close>

lemma example_initializeAll:
  "initializeAll exampleFactory exampleEngine [frontDoor, backYard, frontDoorAgain] =
     Inr [resolved frontDoor, resolved backYard, resolved frontDoorAgain]"
  by (simp add: manager_initializeCamera_def exampleFactory_def exampleEngine_def resolved_def
      frontDoor_def backYard_def frontDoorAgain_def)

lemma example_accepted: "accepted identity [] [resolved frontDoor, resolved backYard]"
  by (simp add: accepted_def derivedID_def resolved_def frontDoor_def backYard_def
      hasCameraID_def)

lemma example_derived: "derivedID identity (resolved frontDoorAgain) = Some ''front''"
  by (simp add: derivedID_def resolved_def frontDoorAgain_def)

lemma example_initializeAll_unnamed:
  "initializeAll exampleFactory exampleEngine [frontDoor, unnamedCamera] =
     Inr [resolved frontDoor, resolved unnamedCamera]"
  by (simp add: manager_initializeCamera_def exampleFactory_def exampleEngine_def resolved_def
      frontDoor_def unnamedCamera_def)

lemma example_initializeAll_none:
  "initializeAll exampleFactory exampleEngine [] = Inr []"
  by simp

theorem initializeCameras_failures_witness:
  "initializeAll exampleFactory exampleEngine [frontDoor, backYard, frontDoorAgain] =
     Inr [resolved frontDoor, resolved backYard, resolved frontDoorAgain] \<and>
   accepted identity [] [resolved frontDoor, resolved backYard] \<and>
   derivedID identity (resolved frontDoorAgain) = Some ''front'' \<and>
   Some ''front'' \<in> set (map (derivedID identity) [resolved frontDoor, resolved backYard]) \<and>
   fst (initializeCameras True exampleFactory exampleEngine identity []
          [frontDoor, backYard, frontDoorAgain]) =
     Inl (CameraInitializationError DuplicateCameraID (Some frontDoorAgain)) \<and>
   derivedID identity (resolved unnamedCamera) = None \<and>
   fst (initializeCameras True exampleFactory exampleEngine identity []
          [frontDoor, unnamedCamera]) =
     Inl (CameraInitializationError NoCameraID (Some unnamedCamera)) \<and>
   fst (initializeCameras True exampleFactory exampleEngine identity [] []) =
     Inl (CameraInitializationError NoCameras None)"
proof -
  let ?pre = "[resolved frontDoor, resolved backYard]"
  have m: "Some ''front'' \<in> set (map (derivedID identity) ?pre)"
    by (simp add: derivedID_def resolved_def frontDoor_def)
  have d: "[resolved frontDoor, resolved backYard, resolved frontDoorAgain] =
      ?pre @ resolved frontDoorAgain # []"
    by simp
  have dup: "fst (initializeCameras True exampleFactory exampleEngine identity []
          [frontDoor, backYard, frontDoorAgain]) =
     Inl (CameraInitializationError DuplicateCameraID
           (Some ([frontDoor, backYard, frontDoorAgain] ! length ?pre)))"
    using initializeCameras_failures [OF disjI1 [OF TrueI] example_initializeAll,
        of identity "[]", THEN conjunct1]
      example_accepted example_derived m d
    by blast
  have a1: "accepted identity [] [resolved frontDoor]"
    by (simp add: accepted_def derivedID_def resolved_def frontDoor_def hasCameraID_def)
  have n: "derivedID identity (resolved unnamedCamera) = None"
    by (simp add: derivedID_def resolved_def unnamedCamera_def)
  have d2: "[resolved frontDoor, resolved unnamedCamera] =
      [resolved frontDoor] @ resolved unnamedCamera # []"
    by simp
  have mis: "fst (initializeCameras True exampleFactory exampleEngine identity []
          [frontDoor, unnamedCamera]) =
     Inl (CameraInitializationError NoCameraID
           (Some ([frontDoor, unnamedCamera] ! length [resolved frontDoor])))"
    using initializeCameras_failures [OF disjI1 [OF TrueI] example_initializeAll_unnamed,
        of identity "[]", THEN conjunct1]
      a1 n d2
    by blast
  have e: "snd (initializeCameras True exampleFactory exampleEngine identity [] []) = []"
    by (simp add: initializeCameras_def getCameraCount_def)
  have emp: "fst (initializeCameras True exampleFactory exampleEngine identity [] []) =
     Inl (CameraInitializationError NoCameras None)"
    using initializeCameras_failures [OF disjI1 [OF TrueI] example_initializeAll_none,
        of identity "[]", THEN conjunct2, THEN conjunct2, THEN conjunct2, THEN conjunct2]
      accepted_Nil [of identity "[]"] e
    by simp
  show ?thesis
    using example_initializeAll example_accepted example_derived m dup n mis emp by simp
qed

section \<open>Initialization: what a failure leaves in the Store\<close>

text \<open>
  C9. \<open>initializeCameras\<close> is not atomic: when it fails at an offending configuration
  (missing ID or duplicate ID), the configurations before the offender stay committed
  to the Store, in input order, and nothing is rolled back. The Store then holds the
  entries of a strict prefix of the input configurations.
\<close>

theorem initializeCameras_partial_commit:
  assumes fetch: "fetchOk \<or> \<not> list_ex hasAutoTriggers cfgs"
    and init: "initializeAll factory impl cfgs = Inr (pre @ r # post)"
    and acc: "accepted g st pre"
    and off: "derivedID g r = None \<or>
       (\<exists>cid. derivedID g r = Some cid \<and>
          (hasCameraID st cid \<or> Some cid \<in> set (map (derivedID g) pre)))"
  shows "(\<exists>k. fst (initializeCameras fetchOk factory impl g st cfgs) =
              Inl (CameraInitializationError k (Some (inputConfig r))) \<and>
            (k = NoCameraID \<or> k = DuplicateCameraID)) \<and>
         snd (initializeCameras fetchOk factory impl g st cfgs) = st @ map (storeEntry g) pre \<and>
         map inputConfig pre = take (length pre) cfgs \<and>
         length pre < length cfgs"
proof -
  have inp: "map inputConfig (pre @ r # post) = cfgs"
    by (rule initializeAll_inputs [OF init])
  then have tk: "map inputConfig pre = take (length pre) cfgs" and len: "length pre < length cfgs"
    by auto
  from off have "\<exists>k. applyResults g st (pre @ r # post) =
      (Inl (CameraInitializationError k (Some (inputConfig r))), st @ map (storeEntry g) pre) \<and>
      (k = NoCameraID \<or> k = DuplicateCameraID)"
    using offender_fails(1) [OF acc] offender_fails(2) [OF acc] by blast
  then obtain k where
    ap: "applyResults g st (pre @ r # post) =
      (Inl (CameraInitializationError k (Some (inputConfig r))), st @ map (storeEntry g) pre)"
    and k: "k = NoCameraID \<or> k = DuplicateCameraID"
    by blast
  have "initializeCameras fetchOk factory impl g st cfgs =
      (Inl (CameraInitializationError k (Some (inputConfig r))), st @ map (storeEntry g) pre)"
    by (rule initializeCameras_applied [OF fetch init ap])
  with k tk len show ?thesis by auto
qed

text \<open>
  The theorem at three configurations, the third offending: the Store, empty before the
  call, holds the first two cameras after the failure.
\<close>

theorem initializeCameras_partial_commit_witness:
  "initializeAll exampleFactory exampleEngine [frontDoor, backYard, frontDoorAgain] =
     Inr ([resolved frontDoor, resolved backYard] @ resolved frontDoorAgain # []) \<and>
   accepted identity [] [resolved frontDoor, resolved backYard] \<and>
   derivedID identity (resolved frontDoorAgain) = Some ''front'' \<and>
   Some ''front'' \<in> set (map (derivedID identity) [resolved frontDoor, resolved backYard]) \<and>
   snd (initializeCameras True exampleFactory exampleEngine identity []
          [frontDoor, backYard, frontDoorAgain]) =
     [(''front'', frontDoor, ''frigate''), (''back'', backYard, ''generic'')] \<and>
   map inputConfig [resolved frontDoor, resolved backYard] = [frontDoor, backYard]"
proof -
  let ?pre = "[resolved frontDoor, resolved backYard]"
  have m: "Some ''front'' \<in> set (map (derivedID identity) ?pre)"
    by (simp add: derivedID_def resolved_def frontDoor_def)
  have i: "initializeAll exampleFactory exampleEngine [frontDoor, backYard, frontDoorAgain] =
     Inr (?pre @ resolved frontDoorAgain # [])"
    using example_initializeAll by simp
  have o: "derivedID identity (resolved frontDoorAgain) = None \<or>
       (\<exists>cid. derivedID identity (resolved frontDoorAgain) = Some cid \<and>
          (hasCameraID [] cid \<or> Some cid \<in> set (map (derivedID identity) ?pre)))"
    using example_derived m by blast
  have e: "map (storeEntry identity) ?pre =
      [(''front'', frontDoor, ''frigate''), (''back'', backYard, ''generic'')]"
    by (simp add: storeEntry_def derivedID_def resolved_def frontDoor_def backYard_def)
  have "snd (initializeCameras True exampleFactory exampleEngine identity []
          [frontDoor, backYard, frontDoorAgain]) = [] @ map (storeEntry identity) ?pre \<and>
        map inputConfig ?pre = take (length ?pre) [frontDoor, backYard, frontDoorAgain]"
    using initializeCameras_partial_commit [OF disjI1 [OF TrueI] i example_accepted o]
    by blast
  then show ?thesis
    using i example_accepted example_derived m e by simp
qed

section \<open>Freshness\<close>

lemma length_copiesFor: "length (copiesFor query es fresh) = length es"
  by (induction query es fresh rule: copiesFor.induct) simp_all

lemma set_copiesFor:
  "set (copiesFor query es fresh) =
     {(fst (es ! i), query\<lparr>cameraIDs := snd (es ! i), qref := fresh + i\<rparr>) | i. i < length es}"
proof (induction query es fresh rule: copiesFor.induct)
  case (1 query fresh)
  then show ?case by simp
next
  case (2 query e ids rest fresh)
  have "{(fst (((e, ids) # rest) ! i),
          query\<lparr>cameraIDs := snd (((e, ids) # rest) ! i), qref := fresh + i\<rparr>) | i.
            i < length ((e, ids) # rest)} =
        insert (e, query\<lparr>cameraIDs := ids, qref := fresh\<rparr>)
          {(fst (rest ! i), query\<lparr>cameraIDs := snd (rest ! i), qref := Suc fresh + i\<rparr>) | i.
            i < length rest}"
    (is "?L = insert ?x ?R")
  proof (intro set_eqI iffI)
    fix x assume "x \<in> ?L"
    then obtain i where i: "i < Suc (length rest)"
      and x: "x = (fst (((e, ids) # rest) ! i),
          query\<lparr>cameraIDs := snd (((e, ids) # rest) ! i), qref := fresh + i\<rparr>)"
      by auto
    show "x \<in> insert ?x ?R"
    proof (cases i)
      case 0
      with x show ?thesis by simp
    next
      case (Suc j)
      with i x have "j < length rest"
        "x = (fst (rest ! j), query\<lparr>cameraIDs := snd (rest ! j), qref := Suc fresh + j\<rparr>)"
        by simp_all
      then show ?thesis by blast
    qed
  next
    fix x assume "x \<in> insert ?x ?R"
    then consider "x = ?x" | "x \<in> ?R" by blast
    then show "x \<in> ?L"
    proof cases
      case 1
      then have "x = (fst (((e, ids) # rest) ! 0),
          query\<lparr>cameraIDs := snd (((e, ids) # rest) ! 0), qref := fresh + 0\<rparr>)"
        by simp
      moreover have "0 < length ((e, ids) # rest)" by simp
      ultimately show ?thesis by blast
    next
      case 2
      then obtain j where "j < length rest"
        "x = (fst (rest ! j), query\<lparr>cameraIDs := snd (rest ! j), qref := Suc fresh + j\<rparr>)"
        by blast
      then have "Suc j < length ((e, ids) # rest)"
        "x = (fst (((e, ids) # rest) ! Suc j),
          query\<lparr>cameraIDs := snd (((e, ids) # rest) ! Suc j), qref := fresh + Suc j\<rparr>)"
        by simp_all
      then show ?thesis by blast
    qed
  qed
  with 2 show ?case by simp
qed

lemma freshForEngines_eq:
  "freshForEngines impl now ts query es fresh =
     (if list_all (withinMaxAge impl now ts) (copiesFor query es fresh)
      then Some (fresh + length es) else None)"
proof (induction es arbitrary: fresh)
  case Nil
  then show ?case by simp
next
  case (Cons a es)
  obtain e ids where a: "a = (e, ids)" by (cases a)
  show ?case
    unfolding a
    by (simp add: Cons.IH withinMaxAge_def not_less split: option.splits)
qed

lemma freshForQueries_eq:
  "freshForQueries impl st now ts qs fresh =
     list_all (withinMaxAge impl now ts) (contributions st qs fresh)"
proof (induction qs arbitrary: fresh)
  case Nil
  then show ?case by simp
next
  case (Cons q qs)
  have "(case getEnginesForCameraIDs st (cameraIDs q) of None \<Rightarrow> [] | Some es \<Rightarrow> es) =
      enginesOf st q"
    by (simp add: enginesOf_def)
  then show ?case
    by (simp add: freshForEngines_eq Cons.IH)
qed

lemma contributions_from:
  "c \<in> set (contributions st qs fresh) \<Longrightarrow>
     \<exists>query \<in> set qs. \<exists>ids r. (fst c, ids) \<in> set (enginesOf st query) \<and>
        snd c = query\<lparr>cameraIDs := ids, qref := r\<rparr>"
proof (induction qs arbitrary: fresh)
  case Nil
  then show ?case by simp
next
  case (Cons q qs)
  from Cons.prems consider
    "c \<in> set (copiesFor q (enginesOf st q) fresh)"
    | "c \<in> set (contributions st qs (fresh + length (enginesOf st q)))"
    by auto
  then show ?case
  proof cases
    case 1
    then obtain i where "i < length (enginesOf st q)"
      "c = (fst (enginesOf st q ! i),
            q\<lparr>cameraIDs := snd (enginesOf st q ! i), qref := fresh + i\<rparr>)"
      by (auto simp: set_copiesFor)
    then have "(fst c, snd (enginesOf st q ! i)) \<in> set (enginesOf st q)"
      "snd c = q\<lparr>cameraIDs := snd (enginesOf st q ! i), qref := fresh + i\<rparr>"
      by simp_all
    then show ?thesis by (metis list.set_intros(1))
  next
    case 2
    from Cons.IH [OF 2] show ?thesis by (metis list.set_intros(2))
  qed
qed

lemma contributions_to:
  "query \<in> set qs \<Longrightarrow> (e, ids) \<in> set (enginesOf st query) \<Longrightarrow>
     \<exists>r. (e, query\<lparr>cameraIDs := ids, qref := r\<rparr>) \<in> set (contributions st qs fresh)"
proof (induction qs arbitrary: fresh)
  case Nil
  then show ?case by simp
next
  case (Cons q qs)
  show ?case
  proof (cases "query = q")
    case True
    from Cons.prems(2) obtain i where i: "i < length (enginesOf st query)"
      "enginesOf st query ! i = (e, ids)"
      by (auto simp: in_set_conv_nth)
    then have "(e, query\<lparr>cameraIDs := ids, qref := fresh + i\<rparr>) \<in>
        set (copiesFor query (enginesOf st query) fresh)"
      unfolding set_copiesFor by force
    then show ?thesis using True by auto
  next
    case False
    with Cons.prems have "query \<in> set qs" by simp
    from Cons.IH [OF this Cons.prems(2)] show ?thesis by auto
  qed
qed

text \<open>
  C5. \<open>areMediaQueriesResultsFresh\<close> is true if and only if, for every (engine, owned
  camera subset) that contributes to the queries, the engine's maximum age is \<open>null\<close> or
  the results' timestamp plus the age is not before \<open>now\<close>. One contribution whose
  timestamp plus age is before \<open>now\<close> makes the batch stale, whatever the others
  report. The contributions are exactly the pairs of an engine of a query and the copy of
  the query narrowed to the cameras that engine owns.
\<close>

theorem areMediaQueriesResultsFresh_iff:
  "areMediaQueriesResultsFresh impl st now fresh qs resultsTimestamp =
     (\<forall>c \<in> set (contributions st qs fresh).
        engine_getQueryResultMaxAge (impl (fst c)) (snd c) = None \<or>
        (\<exists>maxAge. engine_getQueryResultMaxAge (impl (fst c)) (snd c) = Some maxAge \<and>
           now \<le> resultsTimestamp + 1000 * maxAge)) \<and>
   ((\<exists>c \<in> set (contributions st qs fresh). \<exists>maxAge.
        engine_getQueryResultMaxAge (impl (fst c)) (snd c) = Some maxAge \<and>
        resultsTimestamp + 1000 * maxAge < now) \<longrightarrow>
      \<not> areMediaQueriesResultsFresh impl st now fresh qs resultsTimestamp) \<and>
   (\<forall>c \<in> set (contributions st qs fresh).
      \<exists>query \<in> set qs. \<exists>ids r. (fst c, ids) \<in> set (enginesOf st query) \<and>
        snd c = query\<lparr>cameraIDs := ids, qref := r\<rparr>) \<and>
   (\<forall>query \<in> set qs. \<forall>e ids. (e, ids) \<in> set (enginesOf st query) \<longrightarrow>
      (\<exists>r. (e, query\<lparr>cameraIDs := ids, qref := r\<rparr>) \<in> set (contributions st qs fresh)))"
proof (intro conjI)
  show 1: "areMediaQueriesResultsFresh impl st now fresh qs resultsTimestamp =
     (\<forall>c \<in> set (contributions st qs fresh).
        engine_getQueryResultMaxAge (impl (fst c)) (snd c) = None \<or>
        (\<exists>maxAge. engine_getQueryResultMaxAge (impl (fst c)) (snd c) = Some maxAge \<and>
           now \<le> resultsTimestamp + 1000 * maxAge))"
    unfolding areMediaQueriesResultsFresh_def freshForQueries_eq list_all_iff withinMaxAge_def
    by (auto split: option.splits)
  show "(\<exists>c \<in> set (contributions st qs fresh). \<exists>maxAge.
        engine_getQueryResultMaxAge (impl (fst c)) (snd c) = Some maxAge \<and>
        resultsTimestamp + 1000 * maxAge < now) \<longrightarrow>
      \<not> areMediaQueriesResultsFresh impl st now fresh qs resultsTimestamp"
    unfolding 1 by fastforce
  show "\<forall>c \<in> set (contributions st qs fresh).
      \<exists>query \<in> set qs. \<exists>ids r. (fst c, ids) \<in> set (enginesOf st query) \<and>
        snd c = query\<lparr>cameraIDs := ids, qref := r\<rparr>"
    using contributions_from by blast
  show "\<forall>query \<in> set qs. \<forall>e ids. (e, ids) \<in> set (enginesOf st query) \<longrightarrow>
      (\<exists>r. (e, query\<lparr>cameraIDs := ids, qref := r\<rparr>) \<in> set (contributions st qs fresh))"
    using contributions_to by blast
qed

text \<open>
  The theorem at a query over two engines, one with a maximum age of 60 seconds and one
  unbounded: stale at 70 seconds, fresh at 60.
\<close>

lemma example_enginesOf:
  "enginesOf exampleStore (eventQuery 0 [''front'', ''back'', ''side'']) =
     [(''frigate'', [''front'']), (''generic'', [''back''])]"
  by (simp add: enginesOf_def getEnginesForCameraIDs_def getEngineForCameraID_def
      exampleStore_def eventQuery_def)

lemma example_contributions:
  "contributions exampleStore [eventQuery 0 [''front'', ''back'', ''side'']] 10 =
     [(''frigate'', eventQuery 10 [''front'']), (''generic'', eventQuery 11 [''back''])]"
  by (simp add: example_enginesOf) (simp add: eventQuery_def)

lemma example_maxAge:
  "engine_getQueryResultMaxAge (exampleEngine ''frigate'') q = Some 60"
  "engine_getQueryResultMaxAge (exampleEngine ''generic'') q = None"
  by (simp_all add: exampleEngine_def)

theorem areMediaQueriesResultsFresh_iff_witness:
  "contributions exampleStore [eventQuery 0 [''front'', ''back'', ''side'']] 10 =
     [(''frigate'', eventQuery 10 [''front'']), (''generic'', eventQuery 11 [''back''])] \<and>
   engine_getQueryResultMaxAge (exampleEngine ''frigate'') (eventQuery 10 [''front'']) = Some 60 \<and>
   engine_getQueryResultMaxAge (exampleEngine ''generic'') (eventQuery 11 [''back'']) = None \<and>
   areMediaQueriesResultsFresh exampleEngine exampleStore 100000 10
     [eventQuery 0 [''front'', ''back'', ''side'']] 30000 = False \<and>
   areMediaQueriesResultsFresh exampleEngine exampleStore 100000 10
     [eventQuery 0 [''front'', ''back'', ''side'']] 40000 = True"
proof -
  note stale = areMediaQueriesResultsFresh_iff [of exampleEngine exampleStore 100000 10
      "[eventQuery 0 [''front'', ''back'', ''side'']]" 30000, THEN conjunct1,
      unfolded example_contributions]
  note fresh = areMediaQueriesResultsFresh_iff [of exampleEngine exampleStore 100000 10
      "[eventQuery 0 [''front'', ''back'', ''side'']]" 40000, THEN conjunct1,
      unfolded example_contributions]
  have "areMediaQueriesResultsFresh exampleEngine exampleStore 100000 10
     [eventQuery 0 [''front'', ''back'', ''side'']] 30000 = False"
    using stale by (simp add: example_maxAge)
  moreover have "areMediaQueriesResultsFresh exampleEngine exampleStore 100000 10
     [eventQuery 0 [''front'', ''back'', ''side'']] 40000 = True"
    using fresh by (simp add: example_maxAge)
  ultimately show ?thesis
    using example_contributions example_maxAge by blast
qed

section \<open>Seek time\<close>

text \<open>
  C10. \<open>getMediaSeekTime\<close> returns \<open>null\<close>, without calling the engine, whenever the
  media's camera configuration or engine is not resolved, the media has no start time
  or no end time, or the target is before the start time or after the end time. When
  none of these holds it calls the engine's lookup once and returns its value; the
  engine is called in no other case.
\<close>

theorem getMediaSeekTime_guard:
  "((getCameraConfigForMedia st media = None \<or> getEngineForMedia st media = None \<or>
     startTime media = None \<or> endTime media = None \<or>
     (\<exists>s. startTime media = Some s \<and> target < s) \<or>
     (\<exists>t. endTime media = Some t \<and> target > t)) \<longrightarrow>
      getMediaSeekTime impl st media target = (None, [])) \<and>
   (\<forall>cameraConfig e s t.
      getCameraConfigForMedia st media = Some cameraConfig \<and>
      getEngineForMedia st media = Some e \<and>
      startTime media = Some s \<and> endTime media = Some t \<and> s \<le> target \<and> target \<le> t \<longrightarrow>
      getMediaSeekTime impl st media target =
        (engine_getMediaSeekTime (impl e) (getCameras st) media target,
         [SeekCall e (getCameras st) media target])) \<and>
   (snd (getMediaSeekTime impl st media target) \<noteq> [] \<longrightarrow>
      (\<exists>cameraConfig e s t.
         getCameraConfigForMedia st media = Some cameraConfig \<and>
         getEngineForMedia st media = Some e \<and>
         startTime media = Some s \<and> endTime media = Some t \<and> s \<le> target \<and> target \<le> t))"
  by (auto simp: getMediaSeekTime_def split: option.splits)

text \<open>The theorem at a target after the end time, and at one inside the media.\<close>

theorem getMediaSeekTime_guard_witness:
  "endTime (event 100 (Some ''e3'') ''front'' (Some 3000)) = Some 3500 \<and>
   getMediaSeekTime exampleEngine exampleStore (event 100 (Some ''e3'') ''front'' (Some 3000)) 3600 =
     (None, []) \<and>
   getCameraConfigForMedia exampleStore (event 100 (Some ''e3'') ''front'' (Some 3000)) = Some frontDoor \<and>
   getEngineForMedia exampleStore (event 100 (Some ''e3'') ''front'' (Some 3000)) = Some ''frigate'' \<and>
   startTime (event 100 (Some ''e3'') ''front'' (Some 3000)) = Some 3000 \<and>
   getMediaSeekTime exampleEngine exampleStore (event 100 (Some ''e3'') ''front'' (Some 3000)) 3200 =
     (engine_getMediaSeekTime (exampleEngine ''frigate'') (getCameras exampleStore)
        (event 100 (Some ''e3'') ''front'' (Some 3000)) 3200,
      [SeekCall ''frigate'' (getCameras exampleStore)
        (event 100 (Some ''e3'') ''front'' (Some 3000)) 3200])"
proof -
  let ?m = "event 100 (Some ''e3'') ''front'' (Some 3000)"
  have e: "endTime ?m = Some 3500" and s: "startTime ?m = Some 3000"
    by (simp_all add: event_def)
  have c: "getCameraConfigForMedia exampleStore ?m = Some frontDoor"
    by (simp add: getCameraConfigForMedia_def getCameraConfig_def exampleStore_def event_def)
  have g: "getEngineForMedia exampleStore ?m = Some ''frigate''"
    by (simp add: getEngineForMedia_def getEngineForCameraID_def exampleStore_def event_def)
  have "getMediaSeekTime exampleEngine exampleStore ?m 3600 = (None, [])"
    using getMediaSeekTime_guard [of exampleStore ?m 3600 exampleEngine, THEN conjunct1] e
    by simp
  moreover have "getMediaSeekTime exampleEngine exampleStore ?m 3200 =
     (engine_getMediaSeekTime (exampleEngine ''frigate'') (getCameras exampleStore) ?m 3200,
      [SeekCall ''frigate'' (getCameras exampleStore) ?m 3200])"
    using getMediaSeekTime_guard [of exampleStore ?m 3200 exampleEngine,
        THEN conjunct2, THEN conjunct1] e s c g
    by simp
  ultimately show ?thesis using e s c g by simp
qed

section \<open>Aggregate capabilities\<close>

lemma someCap_iff:
  "someCap flag (map (getCameraCapabilities impl st) ids) = someCameraHas impl st flag ids"
  by (auto simp: someCap_def someCameraHas_def list_ex_iff split: option.splits)

text \<open>
  C8. Each flag of \<open>getAggregateCameraCapabilities\<close> is the logical OR of that flag
  over the per-camera capabilities of the requested cameras, a camera without
  capabilities counting as false; with no subset given the cameras are all the cameras
  of the Store.
\<close>

theorem getAggregateCameraCapabilities_or:
  "canFavoriteEvents (getAggregateCameraCapabilities impl st requested) =
     someCameraHas impl st canFavoriteEvents (requestedCameras st requested) \<and>
   canFavoriteRecordings (getAggregateCameraCapabilities impl st requested) =
     someCameraHas impl st canFavoriteRecordings (requestedCameras st requested) \<and>
   supportsClips (getAggregateCameraCapabilities impl st requested) =
     someCameraHas impl st supportsClips (requestedCameras st requested) \<and>
   supportsRecordings (getAggregateCameraCapabilities impl st requested) =
     someCameraHas impl st supportsRecordings (requestedCameras st requested) \<and>
   supportsSnapshots (getAggregateCameraCapabilities impl st requested) =
     someCameraHas impl st supportsSnapshots (requestedCameras st requested) \<and>
   supportsTimeline (getAggregateCameraCapabilities impl st requested) =
     someCameraHas impl st supportsTimeline (requestedCameras st requested) \<and>
   requestedCameras st None = map fst st \<and>
   (\<forall>ids. requestedCameras st (Some ids) = ids)"
  by (simp add: getAggregateCameraCapabilities_def requestedCameras_def someCap_iff
      getCameraIDs_def)

text \<open>
  The theorem at two cameras, the first with \<open>supportsClips\<close> and the second without:
  the aggregate has it, the aggregate over the second alone has not.
\<close>

lemma example_capabilities:
  "getCameraCapabilities exampleEngine exampleStore ''front'' =
     Some \<lparr>canFavoriteEvents = True, canFavoriteRecordings = False, supportsClips = True,
           supportsRecordings = False, supportsSnapshots = True, supportsTimeline = False\<rparr>"
  "getCameraCapabilities exampleEngine exampleStore ''back'' =
     Some \<lparr>canFavoriteEvents = False, canFavoriteRecordings = False, supportsClips = False,
           supportsRecordings = False, supportsSnapshots = True, supportsTimeline = False\<rparr>"
  by (simp_all add: getCameraCapabilities_def getCameraConfig_def getEngineForCameraID_def
      exampleStore_def exampleEngine_def)

theorem getAggregateCameraCapabilities_or_witness:
  "supportsClips (the (getCameraCapabilities exampleEngine exampleStore ''front'')) = True \<and>
   supportsClips (the (getCameraCapabilities exampleEngine exampleStore ''back'')) = False \<and>
   supportsClips (getAggregateCameraCapabilities exampleEngine exampleStore None) = True \<and>
   supportsClips (getAggregateCameraCapabilities exampleEngine exampleStore (Some [''back''])) = False \<and>
   supportsTimeline (getAggregateCameraCapabilities exampleEngine exampleStore None) = False"
proof -
  have r: "requestedCameras exampleStore None = [''front'', ''back'']"
    by (simp add: requestedCameras_def getCameraIDs_def exampleStore_def)
  have s: "requestedCameras exampleStore (Some [''back'']) = [''back'']"
    by (simp add: requestedCameras_def)
  show ?thesis
    using getAggregateCameraCapabilities_or [of exampleEngine exampleStore None]
      getAggregateCameraCapabilities_or [of exampleEngine exampleStore "Some [''back'']"]
    by (simp add: r s someCameraHas_def example_capabilities)
qed

section \<open>Deduplication and ordering of media\<close>

lemma filter_uniqByFrom:
  "filter (\<lambda>x. f x = k) (uniqByFrom f seen xs) =
     (if k \<in> set seen then [] else take 1 (filter (\<lambda>x. f x = k) xs))"
proof (induction xs arbitrary: seen)
  case Nil
  then show ?case by simp
next
  case (Cons x xs)
  show ?case
  proof (cases "f x \<in> set seen")
    case True
    then show ?thesis by (auto simp: Cons.IH)
  next
    case False
    then show ?thesis by (auto simp: Cons.IH)
  qed
qed

lemma filter_uniqBy:
  "filter (\<lambda>x. f x = k) (uniqBy xs f) = take 1 (filter (\<lambda>x. f x = k) xs)"
  by (simp add: uniqBy_def filter_uniqByFrom)

lemma set_uniqByFrom: "set (uniqByFrom f seen xs) \<subseteq> set xs"
  by (induction xs arbitrary: seen) auto

lemma keys_uniqByFrom:
  "f ` set (uniqByFrom f seen xs) = f ` set xs - set seen"
  by (induction xs arbitrary: seen) auto

lemma distinct_uniqByFrom: "distinct (map f (uniqByFrom f seen xs))"
proof (induction xs arbitrary: seen)
  case Nil
  then show ?case by simp
next
  case (Cons x xs)
  have "f x \<notin> f ` set (uniqByFrom f (f x # seen) xs)"
    by (simp add: keys_uniqByFrom)
  then show ?case by (simp add: Cons.IH)
qed

lemma mset_insertAscending: "mset (insertAscending f x ys) = add_mset x (mset ys)"
  by (induction ys) simp_all

lemma mset_orderByAsc: "mset (orderByAsc xs f) = mset xs"
  by (induction xs) (simp_all add: orderByAsc_def mset_insertAscending)

lemma set_orderByAsc: "set (orderByAsc xs f) = set xs"
  by (metis mset_orderByAsc set_mset_mset)

lemma compareAscending_notAfter: "compareAscending a b \<le> 0 \<longleftrightarrow> notAfter a b"
  by (cases a; cases b) simp_all

lemma notAfter_total: "\<not> notAfter a b \<Longrightarrow> notAfter b a"
  by (cases a; cases b) simp_all

lemma notAfter_trans: "notAfter a b \<Longrightarrow> notAfter b c \<Longrightarrow> notAfter a c"
  by (cases a; cases b; cases c) simp_all

lemma sorted_insertAscending:
  "sorted_wrt (\<lambda>a b. notAfter (f a) (f b)) ys \<Longrightarrow>
     sorted_wrt (\<lambda>a b. notAfter (f a) (f b)) (insertAscending f x ys)"
proof (induction ys)
  case Nil
  then show ?case by simp
next
  case (Cons y ys)
  show ?case
  proof (cases "notAfter (f x) (f y)")
    case True
    then have "\<forall>z \<in> set ys. notAfter (f x) (f z)"
      using Cons.prems notAfter_trans by fastforce
    with True Cons.prems show ?thesis by (simp add: compareAscending_notAfter)
  next
    case False
    then have yx: "notAfter (f y) (f x)" by (rule notAfter_total)
    have "set (insertAscending f x ys) = insert x (set ys)"
      by (metis mset_insertAscending set_mset_add_mset_insert set_mset_mset)
    with False yx Cons show ?thesis by (auto simp: compareAscending_notAfter)
  qed
qed

lemma sorted_orderByAsc: "sorted_wrt (\<lambda>a b. notAfter (f a) (f b)) (orderByAsc xs f)"
  by (induction xs) (simp_all add: orderByAsc_def sorted_insertAscending)

lemma filter_insertAscending:
  "filter (\<lambda>y. f y = k) (insertAscending f x ys) =
     (if f x = k then x # filter (\<lambda>y. f y = k) ys else filter (\<lambda>y. f y = k) ys)"
proof (induction ys)
  case Nil
  then show ?case by simp
next
  case (Cons y ys)
  have "\<not> compareAscending (f x) (f y) \<le> 0 \<Longrightarrow> f y \<noteq> f x"
    by (cases "f x"; cases "f y") auto
  with Cons show ?case by auto
qed

lemma stable_orderByAsc:
  "filter (\<lambda>y. f y = k) (orderByAsc xs f) = filter (\<lambda>y. f y = k) xs"
  by (induction xs) (simp_all add: orderByAsc_def filter_insertAscending)

lemma short_mset_eq: "mset xs = mset ys \<Longrightarrow> length ys \<le> 1 \<Longrightarrow> xs = ys"
proof -
  assume m: "mset xs = mset ys" and l: "length ys \<le> 1"
  have len: "length xs = length ys" using m by (rule mset_eq_length)
  show ?thesis
  proof (cases ys)
    case Nil
    with len show ?thesis by simp
  next
    case (Cons y zs)
    with l have zs: "zs = []" by simp
    with Cons len obtain x where "xs = [x]" by (cases xs) auto
    with m Cons zs show ?thesis by simp
  qed
qed

lemma filter_orderByAsc_short:
  "length (filter P xs) \<le> 1 \<Longrightarrow> filter P (orderByAsc xs f) = filter P xs"
  by (rule short_mset_eq) (simp_all add: mset_filter mset_orderByAsc)

lemma mediaKey_ID: "mediaKey m = Inl X \<longleftrightarrow> mediaID m = Some X"
  by (simp add: mediaKey_def split: option.splits)

lemma mediaKey_ref: "mediaKey m = Inr r \<longleftrightarrow> mediaID m = None \<and> mref m = r"
  by (auto simp: mediaKey_def split: option.splits)

lemma sortMedia_ID:
  "filter (\<lambda>m. mediaID m = Some X) (sortMedia xs) =
     take 1 (filter (\<lambda>m. mediaID m = Some X) xs)"
proof -
  have u: "filter (\<lambda>m. mediaID m = Some X) (uniqBy xs mediaKey) =
      take 1 (filter (\<lambda>m. mediaID m = Some X) xs)"
    using filter_uniqBy [of mediaKey "Inl X" xs] by (simp add: mediaKey_ID)
  then have "length (filter (\<lambda>m. mediaID m = Some X) (uniqBy xs mediaKey)) \<le> 1"
    by simp
  then show ?thesis
    unfolding sortMedia_def using u by (simp add: filter_orderByAsc_short)
qed

lemma sortMedia_noID:
  "filter (\<lambda>m. mediaID m = None \<and> mref m = r) (sortMedia xs) =
     take 1 (filter (\<lambda>m. mediaID m = None \<and> mref m = r) xs)"
proof -
  have u: "filter (\<lambda>m. mediaID m = None \<and> mref m = r) (uniqBy xs mediaKey) =
      take 1 (filter (\<lambda>m. mediaID m = None \<and> mref m = r) xs)"
    using filter_uniqBy [of mediaKey "Inr r" xs] by (simp add: mediaKey_ref)
  then have "length (filter (\<lambda>m. mediaID m = None \<and> mref m = r) (uniqBy xs mediaKey)) \<le> 1"
    by simp
  then show ?thesis
    unfolding sortMedia_def using u by (simp add: filter_orderByAsc_short)
qed

lemma set_sortMedia: "set (sortMedia xs) \<subseteq> set xs"
  by (simp add: sortMedia_def set_orderByAsc uniqBy_def set_uniqByFrom)

lemma sortMedia_keys_distinct: "distinct (map mediaKey (sortMedia xs))"
proof -
  have "mset (map mediaKey (sortMedia xs)) = mset (map mediaKey (uniqBy xs mediaKey))"
    by (simp add: sortMedia_def mset_orderByAsc)
  moreover have "distinct (map mediaKey (uniqBy xs mediaKey))"
    by (simp add: uniqBy_def distinct_uniqByFrom)
  ultimately show ?thesis by (metis mset_eq_imp_distinct_iff)
qed


lemma sortMedia_retains:
  assumes "sameObjects xs" and "m \<in> set xs" and "mediaID m = None"
  shows "filter (\<lambda>x. x = m) (sortMedia xs) = [m]"
proof -
  have same: "\<And>x. x \<in> set xs \<Longrightarrow> (mediaID x = None \<and> mref x = mref m) = (x = m)"
    using assms by (auto simp: sameObjects_def)
  have "filter (\<lambda>x. x = m) xs \<noteq> []"
    using assms(2) by (simp add: filter_empty_conv)
  then obtain zs where f: "filter (\<lambda>x. x = m) xs = m # zs"
    by (metis (mono_tags, lifting) filter_eq_ConsD list.exhaust)
  have "filter (\<lambda>x. x = m) (sortMedia xs) =
      filter (\<lambda>x. mediaID x = None \<and> mref x = mref m) (sortMedia xs)"
    using same set_sortMedia [of xs] by (intro filter_cong) auto
  also have "\<dots> = take 1 (filter (\<lambda>x. mediaID x = None \<and> mref x = mref m) xs)"
    by (rule sortMedia_noID)
  also have "filter (\<lambda>x. mediaID x = None \<and> mref x = mref m) xs = filter (\<lambda>x. x = m) xs"
    using same by (intro filter_cong) auto
  finally show ?thesis using f by simp
qed

lemma executeMediaQueries_sortMedia:
  "fst (executeMediaQueries impl st fresh qs) =
     sortMedia (concat (map (mediaOfResult impl st) (fst (handleQuery impl st fresh qs))))"
  by (simp add: executeMediaQueries_def convertQueryResultsToMedia_def split: prod.splits)

lemma sorted_sortMedia:
  "sorted_wrt (\<lambda>a b. notAfter (startTime a) (startTime b)) (sortMedia xs)"
  by (simp add: sortMedia_def sorted_orderByAsc)

text \<open>
  C2. \<open>_sortMedia\<close>, and with it \<open>executeMediaQueries\<close>, deduplicates by media identity:
  of the items that share an ID only the first of the input is in the output, so an ID
  that occurs in the input occurs exactly once in the output. An item without an ID is
  its own key: it is in the output, once. Nothing is in the output that is not in the
  input.
\<close>

theorem sortMedia_dedup:
  "(\<forall>X. filter (\<lambda>m. mediaID m = Some X) (sortMedia xs) =
         take 1 (filter (\<lambda>m. mediaID m = Some X) xs)) \<and>
   (\<forall>X. (\<exists>m \<in> set xs. mediaID m = Some X) \<longrightarrow>
         length (filter (\<lambda>m. mediaID m = Some X) (sortMedia xs)) = 1) \<and>
   (sameObjects xs \<longrightarrow>
      (\<forall>m \<in> set xs. mediaID m = None \<longrightarrow>
         m \<in> set (sortMedia xs) \<and> filter (\<lambda>x. x = m) (sortMedia xs) = [m])) \<and>
   set (sortMedia xs) \<subseteq> set xs \<and>
   distinct (map mediaKey (sortMedia xs)) \<and>
   fst (executeMediaQueries impl st fresh qs) =
     sortMedia (concat (map (mediaOfResult impl st) (fst (handleQuery impl st fresh qs))))"
proof (intro conjI allI impI ballI)
  fix X
  show "filter (\<lambda>m. mediaID m = Some X) (sortMedia xs) =
         take 1 (filter (\<lambda>m. mediaID m = Some X) xs)"
    by (rule sortMedia_ID)
next
  fix X
  assume "\<exists>m \<in> set xs. mediaID m = Some X"
  then have "filter (\<lambda>m. mediaID m = Some X) xs \<noteq> []"
    by (simp add: filter_empty_conv)
  then show "length (filter (\<lambda>m. mediaID m = Some X) (sortMedia xs)) = 1"
    by (cases "filter (\<lambda>m. mediaID m = Some X) xs") (simp_all add: sortMedia_ID)
next
  fix m
  assume a: "sameObjects xs" "m \<in> set xs" "mediaID m = None"
  show r: "filter (\<lambda>x. x = m) (sortMedia xs) = [m]"
    by (rule sortMedia_retains [OF a])
  have "m \<in> set (filter (\<lambda>x. x = m) (sortMedia xs))"
    unfolding r by simp
  then show "m \<in> set (sortMedia xs)"
    by simp
next
  show "set (sortMedia xs) \<subseteq> set xs" by (rule set_sortMedia)
next
  show "distinct (map mediaKey (sortMedia xs))" by (rule sortMedia_keys_distinct)
next
  show "fst (executeMediaQueries impl st fresh qs) =
     sortMedia (concat (map (mediaOfResult impl st) (fst (handleQuery impl st fresh qs))))"
    by (rule executeMediaQueries_sortMedia)
qed

text \<open>
  The theorem at four media: two share the ID \<open>x\<close>, two have no ID and equal start
  times. One \<open>x\<close> and both items without ID are in the output.
\<close>

lemma example_sortMedia_dedup:
  "sortMedia [event 1 (Some ''x'') ''front'' (Some 5), event 2 None ''front'' (Some 4),
              event 3 (Some ''x'') ''front'' (Some 1), event 4 None ''front'' (Some 4)] =
     [event 2 None ''front'' (Some 4), event 4 None ''front'' (Some 4),
      event 1 (Some ''x'') ''front'' (Some 5)]"
  by (simp add: sortMedia_def uniqBy_def orderByAsc_def mediaKey_def event_def)

theorem sortMedia_dedup_witness:
  "sameObjects [event 1 (Some ''x'') ''front'' (Some 5), event 2 None ''front'' (Some 4),
              event 3 (Some ''x'') ''front'' (Some 1), event 4 None ''front'' (Some 4)] \<and>
   length (filter (\<lambda>m. mediaID m = Some ''x'')
     (sortMedia [event 1 (Some ''x'') ''front'' (Some 5), event 2 None ''front'' (Some 4),
              event 3 (Some ''x'') ''front'' (Some 1), event 4 None ''front'' (Some 4)])) = 1 \<and>
   event 2 None ''front'' (Some 4) \<in> set
     (sortMedia [event 1 (Some ''x'') ''front'' (Some 5), event 2 None ''front'' (Some 4),
              event 3 (Some ''x'') ''front'' (Some 1), event 4 None ''front'' (Some 4)]) \<and>
   event 4 None ''front'' (Some 4) \<in> set
     (sortMedia [event 1 (Some ''x'') ''front'' (Some 5), event 2 None ''front'' (Some 4),
              event 3 (Some ''x'') ''front'' (Some 1), event 4 None ''front'' (Some 4)]) \<and>
   sortMedia [event 1 (Some ''x'') ''front'' (Some 5), event 2 None ''front'' (Some 4),
              event 3 (Some ''x'') ''front'' (Some 1), event 4 None ''front'' (Some 4)] =
     [event 2 None ''front'' (Some 4), event 4 None ''front'' (Some 4),
      event 1 (Some ''x'') ''front'' (Some 5)]"
proof -
  let ?xs = "[event 1 (Some ''x'') ''front'' (Some 5), event 2 None ''front'' (Some 4),
              event 3 (Some ''x'') ''front'' (Some 1), event 4 None ''front'' (Some 4)]"
  have so: "sameObjects ?xs"
    by (simp add: sameObjects_def event_def)
  have ex: "\<exists>m \<in> set ?xs. mediaID m = Some ''x''"
    by (simp add: event_def)
  have n2: "event 2 None ''front'' (Some 4) \<in> set ?xs" "mediaID (event 2 None ''front'' (Some 4)) = None"
    and n4: "event 4 None ''front'' (Some 4) \<in> set ?xs" "mediaID (event 4 None ''front'' (Some 4)) = None"
    by (simp_all add: event_def)
  note t = sortMedia_dedup [of ?xs]
  have "length (filter (\<lambda>m. mediaID m = Some ''x'') (sortMedia ?xs)) = 1"
    using t ex by blast
  moreover have "event 2 None ''front'' (Some 4) \<in> set (sortMedia ?xs)"
    using t so n2 by blast
  moreover have "event 4 None ''front'' (Some 4) \<in> set (sortMedia ?xs)"
    using t so n4 by blast
  ultimately show ?thesis using so example_sortMedia_dedup by simp
qed

section \<open>The keys of the query results\<close>

lemma processEngines_fold:
  "processEngines impl st query es acc fresh =
     (fold (\<lambda>c. processEngineQuery impl st (fst c) (snd c)) (copiesFor query es fresh) acc,
      fresh + length es)"
proof (induction es arbitrary: acc fresh)
  case Nil
  then show ?case by simp
next
  case (Cons a es)
  obtain e ids where a: "a = (e, ids)" by (cases a)
  show ?case unfolding a by (simp add: Cons.IH)
qed

lemma processQuery_fold:
  "processQuery impl st query acc fresh =
     (fold (\<lambda>c. processEngineQuery impl st (fst c) (snd c))
        (copiesFor query (enginesOf st query) fresh) acc,
      fresh + length (enginesOf st query))"
  by (simp add: processQuery_def enginesOf_def processEngines_fold split: option.splits)

lemma processQueries_fold:
  "processQueries impl st qs acc fresh =
     (fold (\<lambda>c. processEngineQuery impl st (fst c) (snd c)) (contributions st qs fresh) acc,
      fresh + length (contributions st qs fresh))"
proof (induction qs arbitrary: acc fresh)
  case Nil
  then show ?case by simp
next
  case (Cons q qs)
  show ?case
    by (simp add: processQuery_fold Cons.IH length_copiesFor add.assoc)
qed

lemma handleQuery_fold:
  "handleQuery impl st fresh qs =
     (fold (\<lambda>c. processEngineQuery impl st (fst c) (snd c)) (contributions st qs fresh) [],
      fresh + length (contributions st qs fresh))"
  by (simp add: handleQuery_def processQueries_fold)

lemma key_mapSet: "(k', v') \<in> set (mapSet k v m) \<Longrightarrow> k' = k \<or> k' \<in> fst ` set m"
  by (induction m) (force split: if_splits)+

lemma keys_mapSet: "fst ` set (mapSet k v m) \<subseteq> insert k (fst ` set m)"
  using key_mapSet by fastforce

lemma keys_fold_mapSet:
  "fst ` set (fold (\<lambda>(key, v) acc. mapSet key v acc) m acc) \<subseteq> fst ` set m \<union> fst ` set acc"
proof (induction m arbitrary: acc)
  case Nil
  then show ?case by simp
next
  case (Cons a m)
  obtain k v where a: "a = (k, v)" by (cases a)
  have "fst ` set (fold (\<lambda>(key, v) acc. mapSet key v acc) m (mapSet k v acc)) \<subseteq>
      fst ` set m \<union> fst ` set (mapSet k v acc)"
    by (rule Cons.IH)
  also have "\<dots> \<subseteq> fst ` set m \<union> insert k (fst ` set acc)"
    using keys_mapSet [of k v acc] by blast
  finally show ?case unfolding a by auto
qed

lemma keys_processEngineQuery:
  "k \<in> fst ` set (processEngineQuery impl st e query acc) \<Longrightarrow>
     k \<in> fst ` set acc \<or> (\<exists>m. engineResultFor impl st e query = Some m \<and> k \<in> fst ` set m)"
proof -
  assume k: "k \<in> fst ` set (processEngineQuery impl st e query acc)"
  show ?thesis
  proof (cases "engineResultFor impl st e query")
    case None
    with k show ?thesis by (simp add: processEngineQuery_def)
  next
    case (Some m)
    with k have "k \<in> fst ` set (fold (\<lambda>(key, v) acc. mapSet key v acc) m acc)"
      by (simp add: processEngineQuery_def)
    then have "k \<in> fst ` set m \<union> fst ` set acc"
      using keys_fold_mapSet by blast
    with Some show ?thesis by auto
  qed
qed

lemma keys_fold_processEngineQuery:
  "k \<in> fst ` set (fold (\<lambda>c. processEngineQuery impl st (fst c) (snd c)) cs acc) \<Longrightarrow>
     k \<in> fst ` set acc \<or>
     (\<exists>c \<in> set cs. \<exists>m. engineResultFor impl st (fst c) (snd c) = Some m \<and> k \<in> fst ` set m)"
proof (induction cs arbitrary: acc)
  case Nil
  then show ?case by simp
next
  case (Cons c cs)
  from Cons.IH [of "processEngineQuery impl st (fst c) (snd c) acc"] Cons.prems
  consider "k \<in> fst ` set (processEngineQuery impl st (fst c) (snd c) acc)"
    | "\<exists>c \<in> set cs. \<exists>m. engineResultFor impl st (fst c) (snd c) = Some m \<and> k \<in> fst ` set m"
    by auto
  then show ?case
  proof cases
    case 1
    from keys_processEngineQuery [OF 1] show ?thesis by auto
  next
    case 2
    then show ?thesis by auto
  qed
qed

lemma keys_handleQuery:
  "k \<in> fst ` set (fst (handleQuery impl st fresh qs)) \<Longrightarrow>
     \<exists>c \<in> set (contributions st qs fresh). \<exists>m.
        engineResultFor impl st (fst c) (snd c) = Some m \<and> k \<in> fst ` set m"
  using keys_fold_processEngineQuery [of k impl st "contributions st qs fresh" "[]"]
  by (simp add: handleQuery_fold)

lemma contributions_refs:
  "c \<in> set (contributions st qs fresh) \<Longrightarrow> fresh \<le> qref (snd c)"
proof (induction qs arbitrary: fresh)
  case Nil
  then show ?case by simp
next
  case (Cons q qs)
  from Cons.prems consider
    "c \<in> set (copiesFor q (enginesOf st q) fresh)"
    | "c \<in> set (contributions st qs (fresh + length (enginesOf st q)))"
    by auto
  then show ?case
  proof cases
    case 1
    then show ?thesis by (auto simp: set_copiesFor)
  next
    case 2
    from Cons.IH [OF 2] show ?thesis by simp
  qed
qed

lemma echo_engineResultFor:
  "keysByReceivedQuery (impl e) \<Longrightarrow> engineResultFor impl st e query = Some m \<Longrightarrow>
     fst ` set m \<subseteq> {query}"
  unfolding keysByReceivedQuery_def engineResultFor_def
  by (cases "qtype query") (simp_all; blast)+

lemma example_keysByReceivedQuery: "keysByReceivedQuery (exampleEngine e)"
  by (simp add: keysByReceivedQuery_def exampleEngine_def)

lemma example_handleQuery_keys:
  "map fst (fst (handleQuery exampleEngine exampleStore 10
       [eventQuery 0 [''front'', ''back'', ''side'']])) =
     [eventQuery 10 [''front''], eventQuery 11 [''back'']]"
  unfolding handleQuery_fold example_contributions
  by (simp add: processEngineQuery_def engineResultFor_def exampleEngine_def eventQuery_def)

text \<open>
  C1, as stated, fails: the map \<open>_handleQuery\<close> returns is not keyed by the caller's
  query objects. For a query over the cameras \<open>front\<close>, \<open>back\<close> and \<open>side\<close>, owned by two
  engines and by none, the map has two keys, the copies handed to the two engines; the
  caller's query is not a key, by reference or by content.
\<close>

theorem handleQuery_keys_counterexample:
  "map fst (fst (handleQuery exampleEngine exampleStore 10
       [eventQuery 0 [''front'', ''back'', ''side'']])) =
     [eventQuery 10 [''front''], eventQuery 11 [''back'']] \<and>
   eventQuery 0 [''front'', ''back'', ''side''] \<notin>
     set (map fst (fst (handleQuery exampleEngine exampleStore 10
       [eventQuery 0 [''front'', ''back'', ''side'']]))) \<and>
   qref (eventQuery 0 [''front'', ''back'', ''side'']) \<notin>
     set (map qref (map fst (fst (handleQuery exampleEngine exampleStore 10
       [eventQuery 0 [''front'', ''back'', ''side'']]))))"
  unfolding example_handleQuery_keys by (simp add: eventQuery_def)

text \<open>
  C1, amended. Every key of the map \<open>_handleQuery\<close> returns is a key of the map some
  engine returned for one of the per-engine copies of the caller's queries. With engines
  that key their results by the query they receive, every key is such a copy
  \<open>{ ...query, cameraIDs: owned }\<close>: it agrees with one of the caller's queries in every
  field but \<open>cameraIDs\<close>, which holds the cameras of that query the engine owns, and it
  is a new object, none of the caller's.
\<close>

theorem handleQuery_keys:
  "(\<forall>k \<in> fst ` set (fst (handleQuery impl st fresh qs)).
      \<exists>c \<in> set (contributions st qs fresh). \<exists>m.
        engineResultFor impl st (fst c) (snd c) = Some m \<and> k \<in> fst ` set m) \<and>
   ((\<forall>e. keysByReceivedQuery (impl e)) \<and> (\<forall>q \<in> set qs. qref q < fresh) \<longrightarrow>
      (\<forall>k \<in> fst ` set (fst (handleQuery impl st fresh qs)).
         (\<exists>q \<in> set qs. \<exists>e ids. (e, ids) \<in> set (enginesOf st q) \<and>
            k = q\<lparr>cameraIDs := ids, qref := qref k\<rparr>) \<and>
         fresh \<le> qref k \<and> k \<notin> set qs \<and> qref k \<notin> qref ` set qs))"
proof (intro conjI ballI impI)
  fix k
  assume "k \<in> fst ` set (fst (handleQuery impl st fresh qs))"
  then show "\<exists>c \<in> set (contributions st qs fresh). \<exists>m.
        engineResultFor impl st (fst c) (snd c) = Some m \<and> k \<in> fst ` set m"
    by (rule keys_handleQuery)
next
  fix k
  assume h: "(\<forall>e. keysByReceivedQuery (impl e)) \<and> (\<forall>q \<in> set qs. qref q < fresh)"
    and k: "k \<in> fst ` set (fst (handleQuery impl st fresh qs))"
  from keys_handleQuery [OF k] obtain c m where
    c: "c \<in> set (contributions st qs fresh)"
    and m: "engineResultFor impl st (fst c) (snd c) = Some m" "k \<in> fst ` set m"
    by blast
  from h have "keysByReceivedQuery (impl (fst c))" by blast
  from echo_engineResultFor [OF this m(1)] m(2) have kc: "k = snd c" by blast
  from contributions_from [OF c] obtain q ids r where
    q: "q \<in> set qs" "(fst c, ids) \<in> set (enginesOf st q)"
      "snd c = q\<lparr>cameraIDs := ids, qref := r\<rparr>"
    by blast
  have r: "qref k = r" using kc q(3) by simp
  show "\<exists>q \<in> set qs. \<exists>e ids. (e, ids) \<in> set (enginesOf st q) \<and>
            k = q\<lparr>cameraIDs := ids, qref := qref k\<rparr>"
    using q kc r by auto
  show f: "fresh \<le> qref k"
    using contributions_refs [OF c] kc by simp
  show n: "qref k \<notin> qref ` set qs"
    using f h by fastforce
  show "k \<notin> set qs"
    using n by blast
qed

text \<open>The amended theorem at the query over two engines.\<close>

theorem handleQuery_keys_witness:
  "keysByReceivedQuery (exampleEngine ''frigate'') \<and>
   keysByReceivedQuery (exampleEngine ''generic'') \<and>
   qref (eventQuery 0 [''front'', ''back'', ''side'']) < 10 \<and>
   eventQuery 10 [''front''] \<in> fst ` set (fst (handleQuery exampleEngine exampleStore 10
       [eventQuery 0 [''front'', ''back'', ''side'']])) \<and>
   10 \<le> qref (eventQuery 10 [''front'']) \<and>
   eventQuery 10 [''front''] \<notin> set [eventQuery 0 [''front'', ''back'', ''side'']] \<and>
   eventQuery 10 [''front''] =
     (eventQuery 0 [''front'', ''back'', ''side''])\<lparr>cameraIDs := [''front''], qref := 10\<rparr>"
proof -
  let ?qs = "[eventQuery 0 [''front'', ''back'', ''side'']]"
  have k: "eventQuery 10 [''front''] \<in>
      fst ` set (fst (handleQuery exampleEngine exampleStore 10 ?qs))"
    using example_handleQuery_keys by (metis list.set_intros(1) set_map)
  have f: "\<forall>q \<in> set ?qs. qref q < 10"
    by (simp add: eventQuery_def)
  have "10 \<le> qref (eventQuery 10 [''front'']) \<and> eventQuery 10 [''front''] \<notin> set ?qs"
    using handleQuery_keys [of exampleEngine exampleStore 10 ?qs, THEN conjunct2]
      example_keysByReceivedQuery f k
    by blast
  then show ?thesis
    using example_keysByReceivedQuery k by (simp add: eventQuery_def)
qed

section \<open>Pagination: lemmas\<close>

lemma startTimes_Cons:
  "startTimes (m # ms) =
     (case startTime m of None \<Rightarrow> startTimes ms | Some s \<Rightarrow> s # startTimes ms)"
  by (simp add: startTimes_def map_filter_simps split: option.splits)

lemma startTimes_Nil: "startTimes [] = []"
  by (simp add: startTimes_def map_filter_simps)

lemma set_startTimes: "set (startTimes ms) = {t. \<exists>m \<in> set ms. startTime m = Some t}"
  by (induction ms) (auto simp: startTimes_Nil startTimes_Cons split: option.splits)

lemma Max_drop_smaller:
  fixes s :: int
  assumes "finite S" and "old \<le> s"
  shows "Max (insert s (insert old S)) = Max (insert s S)"
proof (cases "S = {}")
  case True
  with assms show ?thesis by (simp add: max_def)
next
  case False
  have "Max (insert s (insert old S)) = max s (max old (Max S))"
    using assms(1) False by simp
  also have "\<dots> = max (max s old) (Max S)"
    by (simp only: max.assoc)
  also have "max s old = s"
    using assms(2) by (rule max.absorb1)
  also have "max s (Max S) = Max (insert s S)"
    using assms(1) False by simp
  finally show ?thesis .
qed

lemma Min_drop_larger:
  fixes s :: int
  assumes "finite S" and "s \<le> old"
  shows "Min (insert s (insert old S)) = Min (insert s S)"
proof (cases "S = {}")
  case True
  with assms show ?thesis by (simp add: min_def)
next
  case False
  have "Min (insert s (insert old S)) = min s (min old (Min S))"
    using assms(1) False by simp
  also have "\<dots> = min (min s old) (Min S)"
    by (simp only: min.assoc)
  also have "min s old = s"
    using assms(2) by (rule min.absorb1)
  also have "min s (Min S) = Min (insert s S)"
    using assms(1) False by simp
  finally show ?thesis .
qed

lemma loop_step:
  "startTime m = Some s \<Longrightarrow>
   getTimeFromResultsLoop want (Some old) (m # ms) =
     getTimeFromResultsLoop want
       (Some (if (want = Earliest \<and> s < old) \<or> (want = Latest \<and> s > old) then s else old)) ms"
  by simp

lemma latest_loop:
  "getTimeFromResultsLoop Latest out ms =
     (if set (startTimes ms) \<union> set_option out = {} then None
      else Some (Max (set (startTimes ms) \<union> set_option out)))"
proof (induction ms arbitrary: out)
  case Nil
  then show ?case by (cases out) (simp_all add: startTimes_Nil)
next
  case (Cons m ms)
  show ?case
  proof (cases "startTime m")
    case None
    then show ?thesis by (simp add: Cons.IH startTimes_Cons)
  next
    case (Some s)
    show ?thesis
    proof (cases out)
      case None
      with Some show ?thesis by (simp add: Cons.IH startTimes_Cons)
    next
      case o: (Some old)
      let ?S = "set (startTimes ms)"
      have fin: "finite ?S" by simp
      have sets: "set (startTimes (m # ms)) \<union> set_option out = insert s (insert old ?S)"
        using Some o by (auto simp: startTimes_Cons)
      have "getTimeFromResultsLoop Latest out (m # ms) =
          Some (Max (insert (if s > old then s else old) ?S))"
        unfolding o loop_step [OF Some] Cons.IH by simp
      also have "Max (insert (if s > old then s else old) ?S) = Max (insert s (insert old ?S))"
      proof (cases "s > old")
        case True
        then show ?thesis using Max_drop_smaller [OF fin, of old s] by simp
      next
        case False
        then show ?thesis
          using Max_drop_smaller [OF fin, of s old] by (simp add: insert_commute [of s old])
      qed
      finally show ?thesis unfolding sets by simp
    qed
  qed
qed

lemma earliest_loop:
  "getTimeFromResultsLoop Earliest out ms =
     (if set (startTimes ms) \<union> set_option out = {} then None
      else Some (Min (set (startTimes ms) \<union> set_option out)))"
proof (induction ms arbitrary: out)
  case Nil
  then show ?case by (cases out) (simp_all add: startTimes_Nil)
next
  case (Cons m ms)
  show ?case
  proof (cases "startTime m")
    case None
    then show ?thesis by (simp add: Cons.IH startTimes_Cons)
  next
    case (Some s)
    show ?thesis
    proof (cases out)
      case None
      with Some show ?thesis by (simp add: Cons.IH startTimes_Cons)
    next
      case o: (Some old)
      let ?S = "set (startTimes ms)"
      have fin: "finite ?S" by simp
      have sets: "set (startTimes (m # ms)) \<union> set_option out = insert s (insert old ?S)"
        using Some o by (auto simp: startTimes_Cons)
      have "getTimeFromResultsLoop Earliest out (m # ms) =
          Some (Min (insert (if s < old then s else old) ?S))"
        unfolding o loop_step [OF Some] Cons.IH by simp
      also have "Min (insert (if s < old then s else old) ?S) = Min (insert s (insert old ?S))"
      proof (cases "s < old")
        case True
        then show ?thesis using Min_drop_larger [OF fin, of s old] by simp
      next
        case False
        then show ?thesis
          using Min_drop_larger [OF fin, of old s] by (simp add: insert_commute [of s old])
      qed
      finally show ?thesis unfolding sets by simp
    qed
  qed
qed

lemma getTimeFromResults_latest:
  "getTimeFromResults ms Latest =
     (if startTimes ms = [] then None else Some (Max (set (startTimes ms))))"
  by (simp add: getTimeFromResults_def latest_loop)

lemma getTimeFromResults_earliest:
  "getTimeFromResults ms Earliest =
     (if startTimes ms = [] then None else Some (Min (set (startTimes ms))))"
  by (simp add: getTimeFromResults_def earliest_loop)

lemma extendLoop_lengths:
  "length (fst (extendLoop rs d c qs fresh)) = length qs \<and>
   length (fst (snd (extendLoop rs d c qs fresh))) = length qs \<and>
   snd (snd (extendLoop rs d c qs fresh)) = fresh + 2 * length qs"
  by (induction qs arbitrary: fresh) (simp_all add: split_beta)

lemma extendLoop_nth:
  "i < length qs \<Longrightarrow>
     fst (extendLoop rs d c qs fresh) ! i = newChunkQueryOf rs d c (fresh + 2 * i) (qs ! i) \<and>
     fst (snd (extendLoop rs d c qs fresh)) ! i = extendedQueryOf c (fresh + 2 * i + 1) (qs ! i)"
proof (induction qs arbitrary: fresh i)
  case Nil
  then show ?case by simp
next
  case (Cons q qs)
  show ?case
  proof (cases i)
    case 0
    then show ?thesis by (simp add: split_beta)
  next
    case (Suc j)
    with Cons.prems have "j < length qs" by simp
    from Cons.IH [OF this, of "Suc (Suc fresh)"] Suc show ?thesis
      by (simp add: split_beta)
  qed
qed

lemma extendMediaQueries_eq:
  "fst (extendMediaQueries impl st fresh qs rs d c) =
     (if newChunkMedia impl st rs d c qs fresh = [] then None
      else Some \<lparr>queries = fst (snd (extendLoop rs d c qs fresh)),
                 results = sortMedia (rs @ newChunkMedia impl st rs d c qs fresh)\<rparr>)"
proof -
  obtain a b f where e: "extendLoop rs d c qs fresh = (a, b, f)"
    by (cases "extendLoop rs d c qs fresh") auto
  have f: "f = fresh + 2 * length qs"
    using extendLoop_lengths [of rs d c qs fresh] e by simp
  show ?thesis
    by (simp add: extendMediaQueries_def newChunkMedia_def newChunkQueries_def e f Let_def
        split: prod.splits)
qed


lemma newChunkQueryOf_later:
  "newChunkQueryOf rs Later c r q =
     (if startTimes rs = [] then q\<lparr>qref := r, qlimit := Some c\<rparr>
      else q\<lparr>qref := r, qstart := Some (Max (set (startTimes rs))), qlimit := Some c\<rparr>)"
  by (simp add: newChunkQueryOf_def getTimeFromResults_latest)

lemma newChunkQueryOf_earlier:
  "newChunkQueryOf rs Earlier c r q =
     (if startTimes rs = [] then q\<lparr>qref := r, qlimit := Some c\<rparr>
      else q\<lparr>qref := r, qend := Some (Min (set (startTimes rs))), qlimit := Some c\<rparr>)"
  by (simp add: newChunkQueryOf_def getTimeFromResults_earliest)

lemma take1_filter_append:
  "filter P xs \<noteq> [] \<Longrightarrow> take 1 (filter P (xs @ ys)) = take 1 (filter P xs)"
  by (cases "filter P xs") simp_all

lemma uniqBy_empty: "uniqBy xs f = [] \<longleftrightarrow> xs = []"
  by (cases xs) (simp_all add: uniqBy_def)

lemma sortMedia_empty: "sortMedia xs = [] \<longleftrightarrow> xs = []"
proof -
  have "sortMedia xs = [] \<longleftrightarrow> mset (sortMedia xs) = {#}" by simp
  also have "\<dots> \<longleftrightarrow> uniqBy xs mediaKey = []"
    by (simp add: sortMedia_def mset_orderByAsc)
  finally show ?thesis by (simp add: uniqBy_empty)
qed

lemma example_newChunkMedia:
  "newChunkMedia exampleEngine exampleStore
     [event 101 (Some ''e1'') ''front'' (Some 1000), event 102 (Some ''e2'') ''back'' (Some 2000)]
     Later 5 [eventQuery 0 [''front'', ''back'', ''side'']] 10 =
   [event 102 (Some ''e2'') ''back'' (Some 2000), event 100 (Some ''e3'') ''front'' (Some 3000)]"
  by code_simp

lemma example_merged:
  "sortMedia ([event 101 (Some ''e1'') ''front'' (Some 1000),
               event 102 (Some ''e2'') ''back'' (Some 2000)] @
              [event 102 (Some ''e2'') ''back'' (Some 2000),
               event 100 (Some ''e3'') ''front'' (Some 3000)]) =
   [event 101 (Some ''e1'') ''front'' (Some 1000), event 102 (Some ''e2'') ''back'' (Some 2000),
    event 100 (Some ''e3'') ''front'' (Some 3000)]"
  by code_simp

lemma example_no_chunk:
  "newChunkMedia exampleEngine exampleStore
     [event 101 (Some ''e1'') ''front'' (Some 1000), event 102 (Some ''e2'') ''back'' (Some 2000)]
     Later 5 [eventQuery 0 [''side'']] 10 = []"
  by code_simp


lemma example_startTimes:
  "startTimes [event 101 (Some ''e1'') ''front'' (Some 1000),
               event 102 (Some ''e2'') ''back'' (Some 2000)] = [1000, 2000]"
  by (simp add: startTimes_def map_filter_def event_def)

section \<open>Ordering of media\<close>

text \<open>
  C3. The output of \<open>_sortMedia\<close> is in ascending order of start time (a missing start
  time last), and the items of equal start time are in the order they have after
  deduplication; the output is a permutation of the deduplicated list. The media that
  \<open>executeMediaQueries\<close> returns and the merged results of \<open>extendMediaQueries\<close> are
  outputs of \<open>_sortMedia\<close> and so ordered.
\<close>

theorem sortMedia_ascending:
  "sorted_wrt (\<lambda>a b. notAfter (startTime a) (startTime b)) (sortMedia xs) \<and>
   (\<forall>t. filter (\<lambda>m. startTime m = t) (sortMedia xs) =
        filter (\<lambda>m. startTime m = t) (uniqBy xs mediaKey)) \<and>
   mset (sortMedia xs) = mset (uniqBy xs mediaKey) \<and>
   sorted_wrt (\<lambda>a b. notAfter (startTime a) (startTime b))
     (fst (executeMediaQueries impl st fresh qs)) \<and>
   (\<forall>r. fst (extendMediaQueries impl st fresh qs rs direction chunkSize) = Some r \<longrightarrow>
      sorted_wrt (\<lambda>a b. notAfter (startTime a) (startTime b)) (results r))"
proof (intro conjI allI impI)
  show "sorted_wrt (\<lambda>a b. notAfter (startTime a) (startTime b)) (sortMedia xs)"
    by (rule sorted_sortMedia)
  show "\<And>t. filter (\<lambda>m. startTime m = t) (sortMedia xs) =
        filter (\<lambda>m. startTime m = t) (uniqBy xs mediaKey)"
    by (simp add: sortMedia_def stable_orderByAsc)
  show "mset (sortMedia xs) = mset (uniqBy xs mediaKey)"
    by (simp add: sortMedia_def mset_orderByAsc)
  show "sorted_wrt (\<lambda>a b. notAfter (startTime a) (startTime b))
     (fst (executeMediaQueries impl st fresh qs))"
    by (simp add: executeMediaQueries_sortMedia sorted_sortMedia)
next
  fix r
  assume "fst (extendMediaQueries impl st fresh qs rs direction chunkSize) = Some r"
  then obtain ys where "results r = sortMedia ys"
    by (auto simp: extendMediaQueries_def Let_def split: prod.splits if_splits)
  then show "sorted_wrt (\<lambda>a b. notAfter (startTime a) (startTime b)) (results r)"
    by (simp add: sorted_sortMedia)
qed

text \<open>
  The theorem at the start times 3000, 1000, 2000, 1000: the output has 1000, 1000,
  2000, 3000, the two items at 1000 in their input order. And at an extension of two
  media by a chunk of two: the merged results are ordered.
\<close>

lemma example_sortMedia_order:
  "sortMedia [event 1 None ''front'' (Some 3000), event 2 None ''front'' (Some 1000),
              event 3 None ''front'' (Some 2000), event 4 None ''front'' (Some 1000)] =
     [event 2 None ''front'' (Some 1000), event 4 None ''front'' (Some 1000),
      event 3 None ''front'' (Some 2000), event 1 None ''front'' (Some 3000)]"
  by (simp add: sortMedia_def uniqBy_def orderByAsc_def mediaKey_def event_def)

theorem sortMedia_ascending_witness:
  "sorted_wrt (\<lambda>a b. notAfter (startTime a) (startTime b))
     (sortMedia [event 1 None ''front'' (Some 3000), event 2 None ''front'' (Some 1000),
              event 3 None ''front'' (Some 2000), event 4 None ''front'' (Some 1000)]) \<and>
   sortMedia [event 1 None ''front'' (Some 3000), event 2 None ''front'' (Some 1000),
              event 3 None ''front'' (Some 2000), event 4 None ''front'' (Some 1000)] =
     [event 2 None ''front'' (Some 1000), event 4 None ''front'' (Some 1000),
      event 3 None ''front'' (Some 2000), event 1 None ''front'' (Some 3000)] \<and>
   (\<exists>r. fst (extendMediaQueries exampleEngine exampleStore 10
              [eventQuery 0 [''front'', ''back'', ''side'']]
              [event 101 (Some ''e1'') ''front'' (Some 1000),
               event 102 (Some ''e2'') ''back'' (Some 2000)] Later 5) = Some r \<and>
        sorted_wrt (\<lambda>a b. notAfter (startTime a) (startTime b)) (results r))"
proof -
  let ?xs = "[event 1 None ''front'' (Some 3000), event 2 None ''front'' (Some 1000),
              event 3 None ''front'' (Some 2000), event 4 None ''front'' (Some 1000)]"
  let ?rs = "[event 101 (Some ''e1'') ''front'' (Some 1000),
              event 102 (Some ''e2'') ''back'' (Some 2000)]"
  let ?q = "eventQuery 0 [''front'', ''back'', ''side'']"
  note t = sortMedia_ascending [of ?xs exampleEngine exampleStore 10 "[?q]" ?rs Later 5]
  have "newChunkMedia exampleEngine exampleStore ?rs Later 5 [?q] 10 \<noteq> []"
    by (simp add: example_newChunkMedia)
  then obtain r where
    r: "fst (extendMediaQueries exampleEngine exampleStore 10 [?q] ?rs Later 5) = Some r"
    by (simp add: extendMediaQueries_eq)
  with t have "sorted_wrt (\<lambda>a b. notAfter (startTime a) (startTime b)) (results r)"
    by blast
  with r t example_sortMedia_order show ?thesis by blast
qed

section \<open>Pagination\<close>

text \<open>
  C6. \<open>extendMediaQueries\<close> builds one chunk query per query: a copy whose limit is the
  chunk size and whose start bound, for \<open>later\<close>, is the maximum start time present in
  the existing results (for \<open>earlier\<close>: whose end bound is the minimum start time); with
  no start time in the results the bound is left as it is. When the chunk has media,
  the call returns the extended queries, each a copy of a query with the limit (0 if
  absent) raised by the chunk size, and as results the existing results followed by
  the chunk, deduplicated and sorted: of the items of one ID only the first is kept, so
  an ID present in the existing results is in the merged results once, as the existing
  item.
\<close>

theorem extendMediaQueries_extends:
  "set (startTimes rs) = {t. \<exists>m \<in> set rs. startTime m = Some t} \<and>
   length (newChunkQueries rs d c qs fresh) = length qs \<and>
   (\<forall>i < length qs.
      newChunkQueries rs d c qs fresh ! i = newChunkQueryOf rs d c (fresh + 2 * i) (qs ! i)) \<and>
   (\<forall>q r. newChunkQueryOf rs Later c r q =
      (if startTimes rs = [] then q\<lparr>qref := r, qlimit := Some c\<rparr>
       else q\<lparr>qref := r, qstart := Some (Max (set (startTimes rs))), qlimit := Some c\<rparr>)) \<and>
   (\<forall>q r. newChunkQueryOf rs Earlier c r q =
      (if startTimes rs = [] then q\<lparr>qref := r, qlimit := Some c\<rparr>
       else q\<lparr>qref := r, qend := Some (Min (set (startTimes rs))), qlimit := Some c\<rparr>)) \<and>
   (newChunkMedia impl st rs d c qs fresh \<noteq> [] \<longrightarrow>
      (\<exists>r. fst (extendMediaQueries impl st fresh qs rs d c) = Some r \<and>
         length (queries r) = length qs \<and>
         (\<forall>i < length qs.
            queries r ! i =
              (qs ! i)\<lparr>qlimit := Some ((case qlimit (qs ! i) of None \<Rightarrow> 0 | Some l \<Rightarrow> l) + c),
                       qref := fresh + 2 * i + 1\<rparr>) \<and>
         results r = sortMedia (rs @ newChunkMedia impl st rs d c qs fresh) \<and>
         (\<forall>X. filter (\<lambda>m. mediaID m = Some X) (results r) =
               take 1 (filter (\<lambda>m. mediaID m = Some X)
                         (rs @ newChunkMedia impl st rs d c qs fresh))) \<and>
         (\<forall>X. (\<exists>m \<in> set rs. mediaID m = Some X) \<longrightarrow>
               filter (\<lambda>m. mediaID m = Some X) (results r) =
                 take 1 (filter (\<lambda>m. mediaID m = Some X) rs))))"
proof (intro conjI allI impI)
  show "set (startTimes rs) = {t. \<exists>m \<in> set rs. startTime m = Some t}"
    by (rule set_startTimes)
next
  show "length (newChunkQueries rs d c qs fresh) = length qs"
    by (simp add: newChunkQueries_def extendLoop_lengths)
next
  fix i assume "i < length qs"
  then show "newChunkQueries rs d c qs fresh ! i =
      newChunkQueryOf rs d c (fresh + 2 * i) (qs ! i)"
    by (simp add: newChunkQueries_def extendLoop_nth)
next
  fix q r
  show "newChunkQueryOf rs Later c r q =
      (if startTimes rs = [] then q\<lparr>qref := r, qlimit := Some c\<rparr>
       else q\<lparr>qref := r, qstart := Some (Max (set (startTimes rs))), qlimit := Some c\<rparr>)"
    by (rule newChunkQueryOf_later)
  show "newChunkQueryOf rs Earlier c r q =
      (if startTimes rs = [] then q\<lparr>qref := r, qlimit := Some c\<rparr>
       else q\<lparr>qref := r, qend := Some (Min (set (startTimes rs))), qlimit := Some c\<rparr>)"
    by (rule newChunkQueryOf_earlier)
next
  let ?chunk = "newChunkMedia impl st rs d c qs fresh"
  let ?r = "\<lparr>queries = fst (snd (extendLoop rs d c qs fresh)),
             results = sortMedia (rs @ ?chunk)\<rparr>"
  assume ne: "?chunk \<noteq> []"
  then have 1: "fst (extendMediaQueries impl st fresh qs rs d c) = Some ?r"
    by (simp add: extendMediaQueries_eq)
  have 2: "length (queries ?r) = length qs"
    by (simp add: extendLoop_lengths)
  have 3: "\<forall>i < length qs.
            queries ?r ! i =
              (qs ! i)\<lparr>qlimit := Some ((case qlimit (qs ! i) of None \<Rightarrow> 0 | Some l \<Rightarrow> l) + c),
                       qref := fresh + 2 * i + 1\<rparr>"
    by (simp add: extendLoop_nth extendedQueryOf_def)
  have 4: "results ?r = sortMedia (rs @ ?chunk)"
    by simp
  have 5: "\<forall>X. filter (\<lambda>m. mediaID m = Some X) (results ?r) =
               take 1 (filter (\<lambda>m. mediaID m = Some X) (rs @ ?chunk))"
    by (simp add: sortMedia_ID)
  have 6: "\<forall>X. (\<exists>m \<in> set rs. mediaID m = Some X) \<longrightarrow>
               filter (\<lambda>m. mediaID m = Some X) (results ?r) =
                 take 1 (filter (\<lambda>m. mediaID m = Some X) rs)"
  proof (intro allI impI)
    fix X assume "\<exists>m \<in> set rs. mediaID m = Some X"
    then have "filter (\<lambda>m. mediaID m = Some X) rs \<noteq> []"
      by (simp add: filter_empty_conv)
    from take1_filter_append [OF this]
    show "filter (\<lambda>m. mediaID m = Some X) (results ?r) =
                 take 1 (filter (\<lambda>m. mediaID m = Some X) rs)"
      using 5 by simp
  qed
  from 1 2 3 4 5 6
  show "\<exists>r. fst (extendMediaQueries impl st fresh qs rs d c) = Some r \<and>
         length (queries r) = length qs \<and>
         (\<forall>i < length qs.
            queries r ! i =
              (qs ! i)\<lparr>qlimit := Some ((case qlimit (qs ! i) of None \<Rightarrow> 0 | Some l \<Rightarrow> l) + c),
                       qref := fresh + 2 * i + 1\<rparr>) \<and>
         results r = sortMedia (rs @ ?chunk) \<and>
         (\<forall>X. filter (\<lambda>m. mediaID m = Some X) (results r) =
               take 1 (filter (\<lambda>m. mediaID m = Some X) (rs @ ?chunk))) \<and>
         (\<forall>X. (\<exists>m \<in> set rs. mediaID m = Some X) \<longrightarrow>
               filter (\<lambda>m. mediaID m = Some X) (results r) =
                 take 1 (filter (\<lambda>m. mediaID m = Some X) rs))"
    by blast
qed

text \<open>
  The theorem at two existing media, the later at 2000, extended \<open>later\<close> by a chunk of
  two, one of them the existing medium at 2000 again.
\<close>

theorem extendMediaQueries_extends_witness:
  "newChunkMedia exampleEngine exampleStore
     [event 101 (Some ''e1'') ''front'' (Some 1000), event 102 (Some ''e2'') ''back'' (Some 2000)]
     Later 5 [eventQuery 0 [''front'', ''back'', ''side'']] 10 =
     [event 102 (Some ''e2'') ''back'' (Some 2000), event 100 (Some ''e3'') ''front'' (Some 3000)] \<and>
   newChunkQueries
     [event 101 (Some ''e1'') ''front'' (Some 1000), event 102 (Some ''e2'') ''back'' (Some 2000)]
     Later 5 [eventQuery 0 [''front'', ''back'', ''side'']] 10 ! 0 =
     (eventQuery 0 [''front'', ''back'', ''side''])
       \<lparr>qref := 10, qstart := Some 2000, qlimit := Some 5\<rparr> \<and>
   (\<exists>r. fst (extendMediaQueries exampleEngine exampleStore 10
              [eventQuery 0 [''front'', ''back'', ''side'']]
              [event 101 (Some ''e1'') ''front'' (Some 1000),
               event 102 (Some ''e2'') ''back'' (Some 2000)] Later 5) = Some r \<and>
        queries r ! 0 =
          (eventQuery 0 [''front'', ''back'', ''side''])\<lparr>qlimit := Some 5, qref := 11\<rparr> \<and>
        results r =
          [event 101 (Some ''e1'') ''front'' (Some 1000),
           event 102 (Some ''e2'') ''back'' (Some 2000),
           event 100 (Some ''e3'') ''front'' (Some 3000)] \<and>
        filter (\<lambda>m. mediaID m = Some ''e2'') (results r) =
          [event 102 (Some ''e2'') ''back'' (Some 2000)])"
proof -
  let ?rs = "[event 101 (Some ''e1'') ''front'' (Some 1000),
              event 102 (Some ''e2'') ''back'' (Some 2000)]"
  let ?q = "eventQuery 0 [''front'', ''back'', ''side'']"
  note t = extendMediaQueries_extends [of ?rs Later 5 "[?q]" 10 exampleEngine exampleStore]
  have ne: "newChunkMedia exampleEngine exampleStore ?rs Later 5 [?q] 10 \<noteq> []"
    by (simp add: example_newChunkMedia)
  have "newChunkQueries ?rs Later 5 [?q] 10 ! 0 = newChunkQueryOf ?rs Later 5 (10 + 2 * 0) ([?q] ! 0)"
    using t by simp
  also have "\<dots> = ?q\<lparr>qref := 10, qstart := Some 2000, qlimit := Some 5\<rparr>"
    using t by (simp add: example_startTimes)
  finally have cq: "newChunkQueries ?rs Later 5 [?q] 10 ! 0 =
      ?q\<lparr>qref := 10, qstart := Some 2000, qlimit := Some 5\<rparr>" .
  from t ne obtain r where
    r: "fst (extendMediaQueries exampleEngine exampleStore 10 [?q] ?rs Later 5) = Some r"
    and qr: "\<forall>i < length [?q]. queries r ! i =
        ([?q] ! i)\<lparr>qlimit := Some ((case qlimit ([?q] ! i) of None \<Rightarrow> 0 | Some l \<Rightarrow> l) + 5),
                   qref := 10 + 2 * i + 1\<rparr>"
    and rr: "results r =
        sortMedia (?rs @ newChunkMedia exampleEngine exampleStore ?rs Later 5 [?q] 10)"
    and dd: "\<forall>X. (\<exists>m \<in> set ?rs. mediaID m = Some X) \<longrightarrow>
        filter (\<lambda>m. mediaID m = Some X) (results r) =
          take 1 (filter (\<lambda>m. mediaID m = Some X) ?rs)"
    by blast
  have q0: "queries r ! 0 = ?q\<lparr>qlimit := Some 5, qref := 11\<rparr>"
    using qr by (simp add: eventQuery_def)
  have r0: "results r =
      [event 101 (Some ''e1'') ''front'' (Some 1000), event 102 (Some ''e2'') ''back'' (Some 2000),
       event 100 (Some ''e3'') ''front'' (Some 3000)]"
    unfolding rr example_newChunkMedia by (rule example_merged)
  have "\<exists>m \<in> set ?rs. mediaID m = Some ''e2''"
    by (simp add: event_def)
  with dd have "filter (\<lambda>m. mediaID m = Some ''e2'') (results r) =
      take 1 (filter (\<lambda>m. mediaID m = Some ''e2'') ?rs)"
    by blast
  then have d0: "filter (\<lambda>m. mediaID m = Some ''e2'') (results r) =
      [event 102 (Some ''e2'') ''back'' (Some 2000)]"
    by (simp add: event_def)
  from example_newChunkMedia cq r q0 r0 d0 show ?thesis by blast
qed

text \<open>
  C7. \<open>extendMediaQueries\<close> returns \<open>null\<close> exactly when the chunk has no media, that
  is when no entry of the chunk queries' results yields any media. The existing results
  are an argument the function only reads: it returns nothing else than \<open>null\<close> then.
\<close>

theorem extendMediaQueries_no_more_data:
  "(fst (extendMediaQueries impl st fresh qs rs d c) = None) =
     (newChunkMedia impl st rs d c qs fresh = []) \<and>
   (newChunkMedia impl st rs d c qs fresh = []) =
     (\<forall>entry \<in> set (fst (handleQuery impl st (fresh + 2 * length qs)
                            (newChunkQueries rs d c qs fresh))).
        mediaOfResult impl st entry = [])"
  by (simp add: extendMediaQueries_eq newChunkMedia_def convertQueryResultsToMedia_def
      sortMedia_empty)

text \<open>The theorem at a query over a camera that no engine owns.\<close>

theorem extendMediaQueries_no_more_data_witness:
  "newChunkMedia exampleEngine exampleStore
     [event 101 (Some ''e1'') ''front'' (Some 1000), event 102 (Some ''e2'') ''back'' (Some 2000)]
     Later 5 [eventQuery 0 [''side'']] 10 = [] \<and>
   fst (extendMediaQueries exampleEngine exampleStore 10 [eventQuery 0 [''side'']]
     [event 101 (Some ''e1'') ''front'' (Some 1000), event 102 (Some ''e2'') ''back'' (Some 2000)]
     Later 5) = None"
  using extendMediaQueries_no_more_data [of exampleEngine exampleStore 10
      "[eventQuery 0 [''side'']]"
      "[event 101 (Some ''e1'') ''front'' (Some 1000),
        event 102 (Some ''e2'') ''back'' (Some 2000)]" Later 5]
    example_no_chunk
  by blast

end
